theory Spec2Isabelle
  imports Complex_Main "HOL-Library.List_Lexorder" "HOL-Library.Char_ord" "HOL-Library.Multiset"
begin

text \<open>
  A shallow embedding of the day-plan scheduler of the assignment tracker
  (\<open>buildDayPlan\<close> in \<open>src/components/PlansView.tsx\<close>) and the theorems that settle the
  claims of its specification.
\<close>

section \<open>Calendar dates and their ISO strings\<close>

text \<open>
  The planner works at day granularity in one fixed time zone. A calendar day is
  modelled by its day number (days since 1970-01-01, negative before). The date library
  used by the source turns a day into the string YYYY-MM-DD; that string is what
  \<open>clampToView\<close> compares, so the conversion is modelled in full, following the
  date arithmetic of the ECMAScript specification (DayFromYear, YearFromTime, InLeapYear,
  MonthFromTime, DateFromTime) on which the library is built.
\<close>

definition DayFromYear :: "int \<Rightarrow> int" where
  "DayFromYear y = 365 * (y - 1970) + (y - 1969) div 4 - (y - 1901) div 100 + (y - 1601) div 400"

definition InLeapYear :: "int \<Rightarrow> bool" where
  "InLeapYear y \<longleftrightarrow> y mod 4 = 0 \<and> (y mod 100 \<noteq> 0 \<or> y mod 400 = 0)"

text \<open>
  The year of a day is the largest \<open>y\<close> with \<open>DayFromYear y \<le> z\<close>. It is computed from
  the estimate \<open>1970 + 400 z div 146097\<close> (146097 days in 400 years), which is off by at
  most one; \<open>YearFromDay_bounds\<close> proves the result is the year asked for.
\<close>

definition YearFromDay :: "int \<Rightarrow> int" where
  "YearFromDay z =
     (let e = 1970 + (400 * z) div 146097
      in if z < DayFromYear e then e - 1
         else if DayFromYear (e + 1) \<le> z then e + 1
         else e)"

definition DayWithinYear :: "int \<Rightarrow> int" where
  "DayWithinYear z = z - DayFromYear (YearFromDay z)"

definition leapDay :: "int \<Rightarrow> int" where
  "leapDay z = (if InLeapYear (YearFromDay z) then 1 else 0)"

text \<open>
  Month (1 to 12) and day of the month, from the day within the year and the leap-day
  count of the year.
\<close>

definition monthOfDay :: "int \<Rightarrow> int \<Rightarrow> int" where
  "monthOfDay l d =
     (if d < 31 then 1
      else if d < 59 + l then 2
      else if d < 90 + l then 3
      else if d < 120 + l then 4
      else if d < 151 + l then 5
      else if d < 181 + l then 6
      else if d < 212 + l then 7
      else if d < 243 + l then 8
      else if d < 273 + l then 9
      else if d < 304 + l then 10
      else if d < 334 + l then 11
      else 12)"

definition dateOfDay :: "int \<Rightarrow> int \<Rightarrow> int" where
  "dateOfDay l d =
     (let m = monthOfDay l d
      in if m = 1 then d + 1
         else if m = 2 then d - 30
         else if m = 3 then d - 58 - l
         else if m = 4 then d - 89 - l
         else if m = 5 then d - 119 - l
         else if m = 6 then d - 150 - l
         else if m = 7 then d - 180 - l
         else if m = 8 then d - 211 - l
         else if m = 9 then d - 242 - l
         else if m = 10 then d - 272 - l
         else if m = 11 then d - 303 - l
         else d - 333 - l)"

definition MonthFromDay :: "int \<Rightarrow> int" where
  "MonthFromDay z = monthOfDay (leapDay z) (DayWithinYear z)"

definition DateFromDay :: "int \<Rightarrow> int" where
  "DateFromDay z = dateOfDay (leapDay z) (DayWithinYear z)"

text \<open>
  Decimal digits and zero padding, as the library's \<open>padStart\<close> helper does them.
\<close>

definition digitChar :: "nat \<Rightarrow> char" where
  "digitChar d = ''0123456789'' ! d"

fun showNat :: "nat \<Rightarrow> string" where
  "showNat n = (if n < 10 then [digitChar n] else showNat (n div 10) @ [digitChar (n mod 10)])"

declare showNat.simps [simp del]

definition padZero :: "nat \<Rightarrow> string \<Rightarrow> string" where
  "padZero n s = replicate (n - length s) (CHR ''0'') @ s"

definition padStart :: "int \<Rightarrow> nat \<Rightarrow> string" where
  "padStart input n =
     (if input < 0 then ''-'' @ padZero n (showNat (nat (- input)))
      else padZero n (showNat (nat input)))"

text \<open>
  The ISO date of a day. Years 0 to 9999 print with four digits; other years print in
  the extended form with a sign and six digits.
\<close>

definition isoDate :: "int \<Rightarrow> string" where
  "isoDate z =
     (let y = YearFromDay z; longFormat = (y > 9999 \<or> y < 0)
      in (if longFormat \<and> y \<ge> 0 then ''+'' else '''')
         @ padStart y (if longFormat then 6 else 4)
         @ ''-'' @ padStart (MonthFromDay z) 2
         @ ''-'' @ padStart (DateFromDay z) 2)"

text \<open>
  Fixed-width digit strings and the four-digit-year range, used to state and prove that
  the string order of ISO dates is the order of the days.
\<close>

fun digitsW :: "nat \<Rightarrow> nat \<Rightarrow> string" where
  "digitsW 0 n = []"
| "digitsW (Suc k) n = digitsW k (n div 10) @ [digitChar (n mod 10)]"

definition fourDigitYear :: "int \<Rightarrow> bool" where
  "fourDigitYear z \<longleftrightarrow> 0 \<le> YearFromDay z \<and> YearFromDay z \<le> 9999"


section \<open>Date-times\<close>

text \<open>
  A date-time of the source (a library value in the zone America/Toronto) is modelled
  as a number of milliseconds of zone-local time, so that every local day has
  \<open>dayMs\<close> milliseconds and local midnight is a multiple of \<open>dayMs\<close>. Changes of
  the zone offset within a day are not modelled; the planner only takes starts of days,
  adds whole days, takes differences of starts of days and compares instants.

  \<open>startOf("day")\<close>, \<open>plus({days})\<close>, \<open>minus({days})\<close>, \<open>diff(_, "days").days\<close>,
  the day number of the local day, and \<open>toISODate\<close>:
\<close>

type_synonym DateTime = int

definition dayMs :: int where
  "dayMs = 86400000"

definition startOfDay :: "DateTime \<Rightarrow> DateTime" where
  "startOfDay t = t - t mod dayMs"

definition plusDays :: "DateTime \<Rightarrow> int \<Rightarrow> DateTime" where
  "plusDays t d = t + d * dayMs"

definition minusDays :: "DateTime \<Rightarrow> int \<Rightarrow> DateTime" where
  "minusDays t d = t - d * dayMs"

definition diffDays :: "DateTime \<Rightarrow> DateTime \<Rightarrow> rat" where
  "diffDays a b = of_int (a - b) / of_int dayMs"

definition dayNumber :: "DateTime \<Rightarrow> int" where
  "dayNumber t = t div dayMs"

definition toISODate :: "DateTime \<Rightarrow> string" where
  "toISODate t = isoDate (dayNumber t)"

section \<open>Data model\<close>

text \<open>
  \<open>types.ts\<close>: an assignment. The field \<open>dueISO\<close> holds an ISO-8601 timestamp in
  the source and is modelled by the date-time it denotes; assignments whose timestamp
  does not parse are outside the model. \<open>estimateMinutes\<close> is a number in the source;
  it is modelled by a rational, so fractional estimates are covered and the arithmetic on
  minutes is exact. NaN and the infinities are outside the model.
  The fields \<open>id\<close> and \<open>notes\<close> are renamed \<open>id_a\<close> and \<open>notes_a\<close>.
\<close>

record Assignment =
  id_a :: string
  course :: "string option"
  title :: string
  dueISO :: DateTime
  notes_a :: "string option"
  estimateMinutes :: "rat option"

text \<open>
  \<open>PlansView.tsx\<close>: the planner's constants, the per-chunk override and the override
  map, keyed by chunk key.
\<close>

definition CHUNK_MINUTES :: rat where
  "CHUNK_MINUTES = 30"

definition MIN_LAST_CHUNK :: rat where
  "MIN_LAST_CHUNK = 10"

record ChunkOverride =
  done_ov :: "bool option"
  dayISO_ov :: "string option"

type_synonym OverridesByChunkKey = "string \<rightharpoonup> ChunkOverride"

definition chunkKey :: "string \<Rightarrow> nat \<Rightarrow> string" where
  "chunkKey assignmentId index = assignmentId @ ''|'' @ showNat index"

text \<open>
  A planned chunk. The fields copied from the assignment carry the suffix \<open>_c\<close>.
\<close>

record PlanChunk =
  key :: string
  assignmentId :: string
  course_c :: "string option"
  title_c :: string
  dueISO_c :: DateTime
  dayISO :: string
  minutes :: rat
  done_c :: bool

section \<open>The planner\<close>

definition clampToView :: "string \<Rightarrow> string \<Rightarrow> string \<Rightarrow> string" where
  "clampToView day viewStartISO viewEndISO =
     (if day < viewStartISO then viewStartISO
      else if day > viewEndISO then viewEndISO
      else day)"

text \<open>
  \<open>Array.prototype.sort\<close> with a comparator is a stable sort; it is modelled by a
  stable insertion sort. An element is inserted in front of the first element it does
  not compare greater than, and elements are inserted from the right, so equal elements
  keep their order.
\<close>

fun insertBy :: "('a \<Rightarrow> 'a \<Rightarrow> int) \<Rightarrow> 'a \<Rightarrow> 'a list \<Rightarrow> 'a list" where
  "insertBy cmp x [] = [x]"
| "insertBy cmp x (y # ys) = (if cmp x y \<le> 0 then x # y # ys else y # insertBy cmp x ys)"

definition sortBy :: "('a \<Rightarrow> 'a \<Rightarrow> int) \<Rightarrow> 'a list \<Rightarrow> 'a list" where
  "sortBy cmp xs = foldr (insertBy cmp) xs []"

text \<open>
  The two comparators of \<open>buildDayPlan\<close>: assignments by due instant, chunks by day
  string and then by due instant.
\<close>

definition dueCmp :: "Assignment \<Rightarrow> Assignment \<Rightarrow> int" where
  "dueCmp a b = dueISO a - dueISO b"

definition chunkCmp :: "PlanChunk \<Rightarrow> PlanChunk \<Rightarrow> int" where
  "chunkCmp x y =
     (if dayISO x \<noteq> dayISO y then (if dayISO x < dayISO y then - 1 else 1)
      else dueISO_c x - dueISO_c y)"

text \<open>
  The loop that splits the total minutes into chunks. The state is the loop counter and
  the array \<open>chunkMinutes\<close>; the \<open>break\<close> is the branch that returns without a
  recursive call.
\<close>

function splitLoop :: "rat \<Rightarrow> int \<Rightarrow> nat \<Rightarrow> rat list \<Rightarrow> rat list" where
  "splitLoop totalMinutes chunkCount i chunkMinutes =
     (if int i < chunkCount then
        (let remaining = totalMinutes - of_nat i * CHUNK_MINUTES;
             mins = min CHUNK_MINUTES remaining
         in if mins < MIN_LAST_CHUNK \<and> length chunkMinutes > 0
            then chunkMinutes[length chunkMinutes - 1 :=
                   chunkMinutes ! (length chunkMinutes - 1) + mins]
            else splitLoop totalMinutes chunkCount (i + 1) (chunkMinutes @ [mins]))
      else chunkMinutes)"
  by pat_completeness auto
termination
  by (relation "measure (\<lambda>(t, c, i, m). nat (c - int i))") auto

declare splitLoop.simps [simp del]

definition totalMinutesOf :: "Assignment \<Rightarrow> rat" where
  "totalMinutesOf a = max 30 (case estimateMinutes a of None \<Rightarrow> 60 | Some m \<Rightarrow> m)"

definition splitChunks :: "rat \<Rightarrow> rat list" where
  "splitChunks totalMinutes =
     (let chunkCount = max 1 \<lceil>totalMinutes / CHUNK_MINUTES\<rceil>
      in splitLoop totalMinutes chunkCount 0 [])"

text \<open>
  The number of days of the assignment's own window, and the default day index of
  chunk \<open>i\<close> of \<open>n\<close>. \<open>Math.round\<close> rounds halves up, as \<open>round\<close> does; the
  quotient and product are taken in exact rational arithmetic.
\<close>

definition windowLenOf :: "DateTime \<Rightarrow> Assignment \<Rightarrow> int" where
  "windowLenOf viewStart a =
     (let viewEnd = plusDays viewStart 6;
          dueDay = startOfDay (dueISO a);
          lastDay = min dueDay viewEnd;
          windowDays = max 0 \<lfloor>diffDays lastDay viewStart\<rfloor>
      in windowDays + 1)"

definition dayIndexOf :: "nat \<Rightarrow> int \<Rightarrow> nat \<Rightarrow> int" where
  "dayIndexOf n windowLen i =
     (let ratio = (if n = 1 then 0 else (of_nat i :: rat) / of_int (int n - 1))
      in if windowLen = 1 then 0 else round (ratio * of_int (windowLen - 1)))"

text \<open>
  \<open>overrides[key] ?? {}\<close>:
\<close>

definition emptyOverride :: ChunkOverride where
  "emptyOverride = \<lparr>done_ov = None, dayISO_ov = None\<rparr>"

definition overrideAt :: "OverridesByChunkKey \<Rightarrow> string \<Rightarrow> ChunkOverride" where
  "overrideAt overrides k = (case overrides k of None \<Rightarrow> emptyOverride | Some v \<Rightarrow> v)"

text \<open>
  The body of the loop over the chunks of one assignment, the body of the loop over the
  assignments, and \<open>buildDayPlan\<close> itself. The current moment, which the source reads
  from the clock, is the first argument. The index \<open>dayIndex\<close> is never negative
  and always within \<open>days\<close> (lemma \<open>dayIndex_in_range\<close>), and \<open>i\<close> is within
  \<open>chunkMinutes\<close>, so no read is out of range.
\<close>

definition planChunk ::
  "DateTime \<Rightarrow> OverridesByChunkKey \<Rightarrow> Assignment \<Rightarrow> rat list \<Rightarrow> int \<Rightarrow> string list \<Rightarrow> nat \<Rightarrow> PlanChunk" where
  "planChunk viewStart overrides a chunkMinutes windowLen days i =
     (let k = chunkKey (id_a a) i;
          ov = overrideAt overrides k;
          dayIndex = dayIndexOf (length chunkMinutes) windowLen i;
          defaultDayISO = days ! nat dayIndex;
          plannedDayISO = clampToView
            (case dayISO_ov ov of None \<Rightarrow> defaultDayISO | Some d \<Rightarrow> d)
            (toISODate viewStart)
            (toISODate (plusDays viewStart 6))
      in \<lparr>key = k,
          assignmentId = id_a a,
          course_c = course a,
          title_c = title a,
          dueISO_c = dueISO a,
          dayISO = plannedDayISO,
          minutes = chunkMinutes ! i,
          done_c = (done_ov ov = Some True)\<rparr>)"

definition planAssignment :: "DateTime \<Rightarrow> OverridesByChunkKey \<Rightarrow> Assignment \<Rightarrow> PlanChunk list" where
  "planAssignment viewStart overrides a =
     (if dueISO a < minusDays viewStart 30 then []
      else
        (let chunkMinutes = splitChunks (totalMinutesOf a);
             windowLen = windowLenOf viewStart a;
             days = map (\<lambda>d. toISODate (plusDays viewStart (int d))) [0..<nat windowLen]
         in map (planChunk viewStart overrides a chunkMinutes windowLen days)
              [0..<length chunkMinutes]))"

definition buildDayPlan :: "DateTime \<Rightarrow> Assignment list \<Rightarrow> OverridesByChunkKey \<Rightarrow> PlanChunk list" where
  "buildDayPlan now items overrides =
     (let viewStart = startOfDay now;
          sorted = sortBy dueCmp items;
          chunks = concat (map (planAssignment viewStart overrides) sorted)
      in sortBy chunkCmp chunks)"

text \<open>
  \<open>toggleDone\<close> of the component: the entry of the key keeps its other field and gets
  the new flag. \<open>withDone\<close> is the update with the flag as a parameter.
\<close>

definition withDone :: "OverridesByChunkKey \<Rightarrow> string \<Rightarrow> bool \<Rightarrow> OverridesByChunkKey" where
  "withDone prev k b = prev(k \<mapsto> (overrideAt prev k)\<lparr>done_ov := Some b\<rparr>)"

definition toggleDone :: "OverridesByChunkKey \<Rightarrow> string \<Rightarrow> OverridesByChunkKey" where
  "toggleDone prev k =
     withDone prev k (\<not> (case done_ov (overrideAt prev k) of None \<Rightarrow> False | Some b \<Rightarrow> b))"

section \<open>Notions used in the statements\<close>

text \<open>
  The stale-item filter; the clock condition that the window lies in years 0 to 9999;
  the seven dates of the window; the chunks of one assignment in a plan; a chunk marked
  done; and the closed form of the split, proved equal to the loop in
  \<open>splitChunks_closed\<close>.
\<close>

definition stale :: "DateTime \<Rightarrow> Assignment \<Rightarrow> bool" where
  "stale now a \<longleftrightarrow> dueISO a < minusDays (startOfDay now) 30"

definition clockOK :: "DateTime \<Rightarrow> bool" where
  "clockOK now \<longleftrightarrow> fourDigitYear (dayNumber now) \<and> fourDigitYear (dayNumber now + 6)"

definition windowDates :: "DateTime \<Rightarrow> string list" where
  "windowDates now = map (\<lambda>d. toISODate (plusDays (startOfDay now) (int d))) [0..<7]"

definition chunksOf :: "string \<Rightarrow> PlanChunk list \<Rightarrow> PlanChunk list" where
  "chunksOf aid plan = filter (\<lambda>c. assignmentId c = aid) plan"

definition markDone :: "string \<Rightarrow> PlanChunk \<Rightarrow> PlanChunk" where
  "markDone k c = (if key c = k then c\<lparr>done_c := True\<rparr> else c)"

definition splitClosed :: "rat \<Rightarrow> rat list" where
  "splitClosed t =
     (let q = \<lfloor>t / 30\<rfloor>; r = t - 30 * of_int q
      in if r = 0 then replicate (nat q) 30
         else if r < 10 then replicate (nat q - 1) 30 @ [30 + r]
         else replicate (nat q) 30 @ [r])"

section \<open>Sample inputs\<close>

text \<open>
  Concrete inputs on which the theorems below are instantiated and evaluated: a current
  moment (10:00 on 2026-11-02, day 20759); assignments due three days later with
  estimates of 70, 61, 30 and 39.5 minutes; an assignment due more than 30 days earlier; an
  override map that moves chunk 1 of the first assignment to 2027-01-01 (day 20819), the
  chunk this produces, and an override entry for a key of no assignment.
\<close>

definition exampleNow :: DateTime where
  "exampleNow = 1793613600000"

definition essay :: Assignment where
  "essay = \<lparr>id_a = ''a1'', course = None, title = ''Essay'',
     dueISO = 1793886800000, notes_a = None, estimateMinutes = Some 70\<rparr>"

definition quiz :: Assignment where
  "quiz = \<lparr>id_a = ''q7'', course = Some ''MATH'', title = ''Quiz'',
     dueISO = 1793886800000, notes_a = None, estimateMinutes = Some 61\<rparr>"

definition memo :: Assignment where
  "memo = \<lparr>id_a = ''m2'', course = None, title = ''Memo'',
     dueISO = 1793886800000, notes_a = None, estimateMinutes = Some 30\<rparr>"

definition oldLab :: Assignment where
  "oldLab = \<lparr>id_a = ''lab'', course = Some ''CS'', title = ''Lab'',
     dueISO = 1788500000000, notes_a = None, estimateMinutes = None\<rparr>"

definition draft :: Assignment where
  "draft = \<lparr>id_a = ''d4'', course = None, title = ''Draft'',
     dueISO = 1793886800000, notes_a = None, estimateMinutes = Some (79 / 2)\<rparr>"

definition farDay :: OverridesByChunkKey where
  "farDay = [''a1|1'' \<mapsto> \<lparr>done_ov = None, dayISO_ov = Some ''2027-01-01''\<rparr>]"

definition movedChunk :: PlanChunk where
  "movedChunk = \<lparr>key = ''a1|1'', assignmentId = ''a1'', course_c = None, title_c = ''Essay'',
        dueISO_c = 1793886800000, dayISO = ''2026-11-08'', minutes = 30, done_c = False\<rparr>"

definition orphanEntry :: ChunkOverride where
  "orphanEntry = \<lparr>done_ov = Some True, dayISO_ov = Some ''2026-11-03''\<rparr>"

section \<open>Calendar lemmas\<close>

lemma div_bounds:
  fixes a c :: int
  assumes "0 < c"
  shows "c * (a div c) \<le> a" and "a < c * (a div c) + c"
proof -
  have "a = c * (a div c) + a mod c" by simp
  moreover have "0 \<le> a mod c" "a mod c < c" using assms by simp_all
  ultimately show "c * (a div c) \<le> a" "a < c * (a div c) + c" by linarith+
qed

lemma DayFromYear_lower: "146097 * y - 287811596 \<le> 400 * DayFromYear y"
proof -
  define a where "a = (y - 1969) div 4"
  define b where "b = (y - 1901) div 100"
  define c where "c = (y - 1601) div 400"
  have "y - 1969 < 4 * a + 4" unfolding a_def using div_bounds(2)[of 4 "y - 1969"] by simp
  moreover have "100 * b \<le> y - 1901" unfolding b_def using div_bounds(1)[of 100 "y - 1901"] by simp
  moreover have "y - 1601 < 400 * c + 400" unfolding c_def using div_bounds(2)[of 400 "y - 1601"] by simp
  moreover have "DayFromYear y = 365 * (y - 1970) + a - b + c"
    by (simp add: DayFromYear_def a_def b_def c_def)
  then have "400 * DayFromYear y = 146000 * y - 287620000 + 400 * a - 400 * b + 400 * c" by simp
  ultimately show ?thesis by linarith
qed

lemma DayFromYear_upper: "400 * DayFromYear y \<le> 146097 * y - 287810501"
proof -
  define a where "a = (y - 1969) div 4"
  define b where "b = (y - 1901) div 100"
  define c where "c = (y - 1601) div 400"
  have "4 * a \<le> y - 1969" unfolding a_def using div_bounds(1)[of 4 "y - 1969"] by simp
  moreover have "y - 1901 < 100 * b + 100" unfolding b_def using div_bounds(2)[of 100 "y - 1901"] by simp
  moreover have "400 * c \<le> y - 1601" unfolding c_def using div_bounds(1)[of 400 "y - 1601"] by simp
  moreover have "DayFromYear y = 365 * (y - 1970) + a - b + c"
    by (simp add: DayFromYear_def a_def b_def c_def)
  then have "400 * DayFromYear y = 146000 * y - 287620000 + 400 * a - 400 * b + 400 * c" by simp
  ultimately show ?thesis by linarith
qed

lemma YearFromDay_bounds:
  "DayFromYear (YearFromDay z) \<le> z \<and> z < DayFromYear (YearFromDay z + 1)"
proof -
  define e where "e = 1970 + (400 * z) div 146097"
  have e1: "146097 * e - 287811090 \<le> 400 * z"
    unfolding e_def using div_bounds(1)[of 146097 "400 * z"] by simp
  have e2: "400 * z < 146097 * e - 287664993"
    unfolding e_def using div_bounds(2)[of 146097 "400 * z"] by simp
  have "400 * DayFromYear (e - 1) \<le> 146097 * e - 287956598"
    using DayFromYear_upper[of "e - 1"] by (simp add: algebra_simps)
  then have lo: "DayFromYear (e - 1) \<le> z"
    using e1 by linarith
  have "146097 * e - 287519402 \<le> 400 * DayFromYear (e + 2)"
    using DayFromYear_lower[of "e + 2"] by (simp add: algebra_simps)
  then have hi: "z < DayFromYear (e + 2)"
    using e2 by linarith
  have two: "e + 1 + 1 = e + 2" "e - 1 + 1 = e" by simp_all
  show ?thesis
    unfolding YearFromDay_def Let_def e_def[symmetric]
    using lo hi by (simp add: two)
qed

lemma div_step:
  fixes y c :: int
  assumes "0 < c"
  shows "y div c = (y - 1) div c + (if y mod c = 0 then 1 else 0)"
proof (cases "y mod c = 0")
  case True
  have "y - 1 = c * (y div c - 1) + (c - 1)"
    using True by (simp add: algebra_simps) (metis mult.commute mult_div_mod_eq add.right_neutral)
  then have "(y - 1) div c = y div c - 1"
    using assms by (intro int_div_pos_eq[where r = "c - 1"]) simp_all
  with True show ?thesis by simp
next
  case False
  have "0 \<le> y mod c" "y mod c < c" using assms by simp_all
  with False have r: "0 \<le> y mod c - 1" "y mod c - 1 < c" by linarith+
  have "y - 1 = c * (y div c) + (y mod c - 1)" by simp
  then have "(y - 1) div c = y div c"
    using r by (intro int_div_pos_eq[where r = "y mod c - 1"]) simp_all
  with False show ?thesis by simp
qed

lemma DayFromYear_Suc: "DayFromYear (y + 1) = DayFromYear y + (if InLeapYear y then 366 else 365)"
proof -
  have a: "(y + 1 - 1969) div 4 = (y - 1969) div 4 + (if y mod 4 = 0 then 1 else 0)"
  proof -
    have "(y + (- 492) * 4) mod 4 = y mod 4" by (rule mod_mult_self1)
    then have "(y - 1968) mod 4 = y mod 4" by simp
    then show ?thesis using div_step[of 4 "y - 1968"] by (simp add: algebra_simps)
  qed
  have b: "(y + 1 - 1901) div 100 = (y - 1901) div 100 + (if y mod 100 = 0 then 1 else 0)"
  proof -
    have "(y + (- 19) * 100) mod 100 = y mod 100" by (rule mod_mult_self1)
    then have "(y - 1900) mod 100 = y mod 100" by simp
    then show ?thesis using div_step[of 100 "y - 1900"] by (simp add: algebra_simps)
  qed
  have c: "(y + 1 - 1601) div 400 = (y - 1601) div 400 + (if y mod 400 = 0 then 1 else 0)"
  proof -
    have "(y + (- 4) * 400) mod 400 = y mod 400" by (rule mod_mult_self1)
    then have "(y - 1600) mod 400 = y mod 400" by simp
    then show ?thesis using div_step[of 400 "y - 1600"] by (simp add: algebra_simps)
  qed
  have d: "y mod 400 = 0 \<Longrightarrow> y mod 100 = 0" "y mod 100 = 0 \<Longrightarrow> y mod 4 = 0"
    using dvd_trans[of 100 400 y] dvd_trans[of 4 100 y] by (simp_all add: mod_eq_0_iff_dvd)
  define A where "A = (y - 1969) div 4"
  define B where "B = (y - 1901) div 100"
  define C where "C = (y - 1601) div 400"
  define p4 where "p4 \<longleftrightarrow> y mod 4 = 0"
  define p100 where "p100 \<longleftrightarrow> y mod 100 = 0"
  define p400 where "p400 \<longleftrightarrow> y mod 400 = 0"
  have lhs: "DayFromYear (y + 1) = 365 * (y - 1969) + (A + (if p4 then 1 else 0))
      - (B + (if p100 then 1 else 0)) + (C + (if p400 then 1 else 0))"
    unfolding DayFromYear_def a b c A_def B_def C_def p4_def p100_def p400_def
    by (simp only: add_diff_eq diff_diff_eq numeral_plus_numeral one_plus_numeral
          add.commute[of y 1] add_diff_cancel_left' flip: diff_diff_eq2)
       simp
  have rhs: "DayFromYear y = 365 * (y - 1970) + A - B + C"
    unfolding DayFromYear_def A_def B_def C_def by (rule refl)
  have leap: "InLeapYear y \<longleftrightarrow> p4 \<and> (\<not> p100 \<or> p400)"
    unfolding InLeapYear_def p4_def p100_def p400_def by (rule refl)
  have imp: "p400 \<Longrightarrow> p100" "p100 \<Longrightarrow> p4"
    by (simp_all add: p4_def p100_def p400_def d)
  show ?thesis
    unfolding lhs rhs leap using imp by (cases p4; cases p100; cases p400) simp_all
qed

lemma DayFromYear_mono_nat: "DayFromYear y \<le> DayFromYear (y + int k)"
proof (induction k)
  case 0
  show ?case by simp
next
  case (Suc k)
  have "DayFromYear (y + int k) \<le> DayFromYear (y + int k + 1)"
    by (simp add: DayFromYear_Suc)
  moreover have e: "y + int (Suc k) = y + int k + 1" by simp
  ultimately show ?case unfolding e using Suc by (blast intro: order_trans)
qed

lemma DayFromYear_mono: "y1 \<le> y2 \<Longrightarrow> DayFromYear y1 \<le> DayFromYear y2"
  using DayFromYear_mono_nat[of y1 "nat (y2 - y1)"] by simp

lemma YearFromDay_mono:
  assumes "z1 \<le> z2"
  shows "YearFromDay z1 \<le> YearFromDay z2"
proof (rule ccontr)
  assume "\<not> YearFromDay z1 \<le> YearFromDay z2"
  then have "YearFromDay z2 + 1 \<le> YearFromDay z1" by simp
  then have "DayFromYear (YearFromDay z2 + 1) \<le> DayFromYear (YearFromDay z1)"
    by (rule DayFromYear_mono)
  with YearFromDay_bounds[of z1] YearFromDay_bounds[of z2] assms show False by linarith
qed

lemma DayWithinYear_range:
  "0 \<le> DayWithinYear z \<and> DayWithinYear z < 365 + leapDay z"
  using YearFromDay_bounds[of z]
  by (auto simp: DayWithinYear_def leapDay_def DayFromYear_Suc split: if_splits)

lemma monthOfDay_range: "1 \<le> monthOfDay l d \<and> monthOfDay l d \<le> 12"
  by (simp add: monthOfDay_def)

lemma monthOfDay_mono: "d1 \<le> d2 \<Longrightarrow> monthOfDay l d1 \<le> monthOfDay l d2"
  by (simp add: monthOfDay_def)

lemma dateOfDay_same_month:
  "monthOfDay l d1 = monthOfDay l d2 \<Longrightarrow> dateOfDay l d2 - dateOfDay l d1 = d2 - d1"
  by (simp add: dateOfDay_def Let_def)

lemma dateOfDay_range:
  "0 \<le> d \<Longrightarrow> d < 365 + l \<Longrightarrow> l = 0 \<or> l = 1 \<Longrightarrow> 1 \<le> dateOfDay l d \<and> dateOfDay l d \<le> 31"
  by (auto simp: dateOfDay_def monthOfDay_def Let_def split: if_splits)

lemma leapDay_cases: "leapDay z = 0 \<or> leapDay z = 1"
  by (simp add: leapDay_def)

lemma MonthFromDay_range: "1 \<le> MonthFromDay z \<and> MonthFromDay z \<le> 12"
  unfolding MonthFromDay_def by (rule monthOfDay_range)

lemma DateFromDay_range: "1 \<le> DateFromDay z \<and> DateFromDay z \<le> 31"
  unfolding DateFromDay_def
  using DayWithinYear_range[of z] leapDay_cases[of z] by (intro dateOfDay_range) simp_all

lemma civil_less:
  assumes "z1 < z2"
  shows "YearFromDay z1 < YearFromDay z2
       \<or> (YearFromDay z1 = YearFromDay z2
          \<and> (MonthFromDay z1 < MonthFromDay z2
             \<or> (MonthFromDay z1 = MonthFromDay z2 \<and> DateFromDay z1 < DateFromDay z2)))"
proof (cases "YearFromDay z1 = YearFromDay z2")
  case False
  moreover have "YearFromDay z1 \<le> YearFromDay z2"
    using assms by (intro YearFromDay_mono) simp
  ultimately show ?thesis by simp
next
  case True
  then have l: "leapDay z1 = leapDay z2" by (simp add: leapDay_def)
  have d: "DayWithinYear z1 < DayWithinYear z2"
    using assms True by (simp add: DayWithinYear_def)
  then have m: "MonthFromDay z1 \<le> MonthFromDay z2"
    unfolding MonthFromDay_def l by (intro monthOfDay_mono) simp
  show ?thesis
  proof (cases "MonthFromDay z1 = MonthFromDay z2")
    case False
    with m True show ?thesis by simp
  next
    case same: True
    then have "DateFromDay z2 - DateFromDay z1 = DayWithinYear z2 - DayWithinYear z1"
      unfolding MonthFromDay_def DateFromDay_def l by (rule dateOfDay_same_month)
    with d True same show ?thesis by simp
  qed
qed

lemma of_char_digitChar: "d < 10 \<Longrightarrow> of_char (digitChar d) = 48 + d"
proof -
  assume "d < 10"
  then have "d = 0 \<or> d = 1 \<or> d = 2 \<or> d = 3 \<or> d = 4 \<or> d = 5 \<or> d = 6 \<or> d = 7 \<or> d = 8 \<or> d = 9"
    by (simp only: numeral_eq_Suc pred_numeral_simps BitM.simps less_Suc_eq) (simp add: numeral_eq_Suc)
  then show ?thesis by (elim disjE) (simp_all add: digitChar_def)
qed

lemma digitChar_less: "a < 10 \<Longrightarrow> b < 10 \<Longrightarrow> digitChar a < digitChar b \<longleftrightarrow> a < b"
  by (simp add: less_char_def of_char_digitChar)

lemma digitChar_eq: "a < 10 \<Longrightarrow> b < 10 \<Longrightarrow> digitChar a = digitChar b \<longleftrightarrow> a = b"
proof
  assume "a < 10" "b < 10" "digitChar a = digitChar b"
  then have "(of_char (digitChar a) :: nat) = of_char (digitChar b)" by simp
  with \<open>a < 10\<close> \<open>b < 10\<close> show "a = b" by (simp add: of_char_digitChar)
qed simp

lemma divmod_less: "(a::nat) < b \<Longrightarrow> a div 10 < b div 10 \<or> (a div 10 = b div 10 \<and> a mod 10 < b mod 10)"
proof -
  assume "a < b"
  have a: "a = 10 * (a div 10) + a mod 10" and b: "b = 10 * (b div 10) + b mod 10" by simp_all
  have "a mod 10 < 10" "b mod 10 < 10" by simp_all
  define qa ra qb rb where "qa = a div 10" and "ra = a mod 10" and "qb = b div 10" and "rb = b mod 10"
  have "a = 10 * qa + ra" "b = 10 * qb + rb" "ra < 10" "rb < 10"
    by (simp_all add: qa_def ra_def qb_def rb_def)
  with \<open>a < b\<close> have "qa < qb \<or> (qa = qb \<and> ra < rb)" by linarith
  then show ?thesis by (simp add: qa_def ra_def qb_def rb_def)
qed

lemma length_digitsW: "length (digitsW k n) = k"
  by (induction k arbitrary: n) simp_all

lemma length_showNat_le: "n < 10 ^ Suc k \<Longrightarrow> length (showNat n) \<le> Suc k"
proof (induction k arbitrary: n)
  case 0
  then show ?case by (simp add: showNat.simps)
next
  case (Suc k)
  show ?case
  proof (cases "n < 10")
    case True
    then show ?thesis by (simp add: showNat.simps)
  next
    case False
    from Suc.prems have "n div 10 < 10 ^ Suc k" by (simp add: less_mult_imp_div_less)
    then have "length (showNat (n div 10)) \<le> Suc k" by (rule Suc.IH)
    with False show ?thesis by (subst showNat.simps) simp
  qed
qed

lemma showNat_nonempty: "showNat n \<noteq> []"
  by (subst showNat.simps) simp

lemma digitsW_zero: "digitsW k 0 = replicate k (CHR ''0'')"
  by (induction k) (simp_all add: digitChar_def replicate_append_same)

lemma padZero_showNat: "n < 10 ^ k \<Longrightarrow> 0 < k \<Longrightarrow> padZero k (showNat n) = digitsW k n"
proof (induction k arbitrary: n)
  case 0
  then show ?case by simp
next
  case (Suc k)
  show ?case
  proof (cases "n < 10")
    case True
    then have "n div 10 = 0" by simp
    with True show ?thesis
      by (simp add: padZero_def showNat.simps digitsW_zero)
  next
    case False
    with Suc.prems have k: "0 < k" by (cases k) simp_all
    from Suc.prems have lt: "n div 10 < 10 ^ k" by (simp add: less_mult_imp_div_less)
    have IH: "padZero k (showNat (n div 10)) = digitsW k (n div 10)"
      using Suc.IH[OF lt k] .
    have "showNat n = showNat (n div 10) @ [digitChar (n mod 10)]"
      using False by (subst showNat.simps) simp
    then have "padZero (Suc k) (showNat n) = padZero k (showNat (n div 10)) @ [digitChar (n mod 10)]"
      by (simp add: padZero_def)
    with IH show ?thesis by simp
  qed
qed

lemma append_less_same_length:
  fixes xs ys :: "'a::linorder list"
  shows "length xs = length ys \<Longrightarrow> xs @ us < ys @ vs \<longleftrightarrow> xs < ys \<or> (xs = ys \<and> us < vs)"
  by (induction xs ys rule: list_induct2) auto

lemma append_less_same_prefix:
  fixes xs :: "'a::linorder list"
  shows "xs @ us < xs @ vs \<longleftrightarrow> us < vs"
  using append_less_same_length[of xs xs us vs] by simp

lemma digitsW_less: "a < 10 ^ k \<Longrightarrow> b < 10 ^ k \<Longrightarrow> a < b \<Longrightarrow> digitsW k a < digitsW k b"
proof (induction k arbitrary: a b)
  case 0
  then show ?case by simp
next
  case (Suc k)
  have la: "a div 10 < 10 ^ k" and lb: "b div 10 < 10 ^ k"
    using Suc.prems by (simp_all add: less_mult_imp_div_less)
  have "a div 10 < b div 10 \<or> (a div 10 = b div 10 \<and> a mod 10 < b mod 10)"
    using Suc.prems(3) by (rule divmod_less)
  then show ?case
  proof
    assume "a div 10 < b div 10"
    then have "digitsW k (a div 10) < digitsW k (b div 10)" using Suc.IH[OF la lb] by simp
    then show ?thesis by (simp add: append_less_same_length length_digitsW)
  next
    assume "a div 10 = b div 10 \<and> a mod 10 < b mod 10"
    then show ?thesis
      by (simp add: append_less_same_length length_digitsW digitChar_less)
  qed
qed

lemma padStart_less:
  assumes "0 \<le> a" "a < b" "b < 10 ^ k" "0 < k"
  shows "padStart a k < padStart b k"
proof -
  have "nat a < 10 ^ k" "nat b < 10 ^ k" "nat a < nat b"
    using assms by (simp_all add: nat_less_iff)
  then show ?thesis
    using assms by (simp add: padStart_def padZero_showNat digitsW_less)
qed

lemma length_padStart: "0 \<le> a \<Longrightarrow> a < 10 ^ k \<Longrightarrow> 0 < k \<Longrightarrow> length (padStart a k) = k"
  by (simp add: padStart_def padZero_showNat length_digitsW nat_less_iff)

lemma isoDate_fourDigit:
  "fourDigitYear z \<Longrightarrow>
     isoDate z = padStart (YearFromDay z) 4 @ ''-'' @ padStart (MonthFromDay z) 2
                 @ ''-'' @ padStart (DateFromDay z) 2"
  by (simp add: isoDate_def fourDigitYear_def Let_def)

lemma isoDate_less:
  assumes "fourDigitYear z1" "fourDigitYear z2" "z1 < z2"
  shows "isoDate z1 < isoDate z2"
proof -
  have y1: "0 \<le> YearFromDay z1" "YearFromDay z1 < 10 ^ 4"
    and y2: "0 \<le> YearFromDay z2" "YearFromDay z2 < 10 ^ 4"
    using assms(1,2) by (simp_all add: fourDigitYear_def)
  have m1: "0 \<le> MonthFromDay z1" "MonthFromDay z1 < 10 ^ 2"
    and m2: "0 \<le> MonthFromDay z2" "MonthFromDay z2 < 10 ^ 2"
    using MonthFromDay_range[of z1] MonthFromDay_range[of z2] by simp_all
  have d1: "0 \<le> DateFromDay z1" "DateFromDay z1 < 10 ^ 2"
    and d2: "0 \<le> DateFromDay z2" "DateFromDay z2 < 10 ^ 2"
    using DateFromDay_range[of z1] DateFromDay_range[of z2] by simp_all
  have ly: "length (padStart (YearFromDay z1) 4) = length (padStart (YearFromDay z2) 4)"
    using y1 y2 by (simp add: length_padStart)
  have lm: "length (padStart (MonthFromDay z1) 2) = length (padStart (MonthFromDay z2) 2)"
    using m1 m2 by (simp add: length_padStart)
  from civil_less[OF assms(3)] show ?thesis
  proof (elim disjE conjE)
    assume "YearFromDay z1 < YearFromDay z2"
    then have "padStart (YearFromDay z1) 4 < padStart (YearFromDay z2) 4"
      using y1 y2 by (intro padStart_less) simp_all
    then show ?thesis
      unfolding isoDate_fourDigit[OF assms(1)] isoDate_fourDigit[OF assms(2)]
      by (simp add: append_less_same_length[OF ly])
  next
    assume y: "YearFromDay z1 = YearFromDay z2" and "MonthFromDay z1 < MonthFromDay z2"
    then have "padStart (MonthFromDay z1) 2 < padStart (MonthFromDay z2) 2"
      using m1 m2 by (intro padStart_less) simp_all
    then show ?thesis
      unfolding isoDate_fourDigit[OF assms(1)] isoDate_fourDigit[OF assms(2)] y
      by (simp add: append_less_same_length[OF lm] append_less_same_prefix)
  next
    assume y: "YearFromDay z1 = YearFromDay z2" and m: "MonthFromDay z1 = MonthFromDay z2"
      and "DateFromDay z1 < DateFromDay z2"
    then have "padStart (DateFromDay z1) 2 < padStart (DateFromDay z2) 2"
      using d1 d2 by (intro padStart_less) simp_all
    then show ?thesis
      unfolding isoDate_fourDigit[OF assms(1)] isoDate_fourDigit[OF assms(2)] y m
      by (simp add: append_less_same_prefix)
  qed
qed

section \<open>Lemmas about the planner\<close>

lemma mset_insertBy: "mset (insertBy cmp x ys) = add_mset x (mset ys)"
  by (induction ys) simp_all

lemma mset_sortBy: "mset (sortBy cmp xs) = mset xs"
  unfolding sortBy_def by (induction xs) (simp_all add: mset_insertBy)

lemma set_sortBy: "set (sortBy cmp xs) = set xs"
  using mset_sortBy[of cmp xs] by (metis set_mset_mset)

lemma map_insertBy:
  assumes "\<And>u v. cmp (f u) (f v) = cmp u v"
  shows "map f (insertBy cmp x ys) = insertBy cmp (f x) (map f ys)"
  by (induction ys) (simp_all add: assms)

lemma map_sortBy:
  assumes "\<And>u v. cmp (f u) (f v) = cmp u v"
  shows "map f (sortBy cmp xs) = sortBy cmp (map f xs)"
  unfolding sortBy_def by (induction xs) (simp_all add: map_insertBy assms)

lemma split_parts:
  fixes t :: rat
  defines "q \<equiv> \<lfloor>t / 30\<rfloor>"
  defines "r \<equiv> t - 30 * of_int q"
  shows "0 \<le> r" and "r < 30"
    and "\<lceil>t / CHUNK_MINUTES\<rceil> = (if r = 0 then q else q + 1)"
    and "30 \<le> t \<Longrightarrow> 1 \<le> q"
proof -
  have lo: "of_int q \<le> t / 30" and hi: "t / 30 < of_int q + 1"
    unfolding q_def by linarith+
  from lo show r0: "0 \<le> r" by (simp add: r_def field_simps)
  from hi show r30: "r < 30" by (simp add: r_def field_simps)
  have "t / 30 = of_int q \<longleftrightarrow> r = 0" by (auto simp: r_def field_simps)
  then show "\<lceil>t / CHUNK_MINUTES\<rceil> = (if r = 0 then q else q + 1)"
    unfolding CHUNK_MINUTES_def ceiling_altdef q_def[symmetric] by simp
  show "1 \<le> q" if "30 \<le> t"
  proof -
    have "(1::rat) \<le> t / 30" using that by simp
    then have "\<lfloor>1::rat\<rfloor> \<le> \<lfloor>t / 30\<rfloor>" by (rule floor_mono)
    then show ?thesis by (simp add: q_def)
  qed
qed

lemma splitLoop_closed:
  assumes "30 \<le> t"
    and "cc = \<lceil>t / CHUNK_MINUTES\<rceil>"
    and "int i < cc"
    and "acc = replicate i 30"
  shows "splitLoop t cc i acc = splitClosed t"
  using assms
proof (induction t cc i acc rule: splitLoop.induct)
  case (1 t cc i acc)
  define q where "q = \<lfloor>t / 30\<rfloor>"
  define r where "r = t - 30 * of_int q"
  have t: "t = 30 * of_int q + r" by (simp add: r_def)
  have r: "0 \<le> r" "r < 30"
    using split_parts(1,2)[of t] by (simp_all add: q_def r_def)
  have q: "1 \<le> q" using split_parts(4)[OF "1.prems"(1)] by (simp add: q_def)
  have cc: "cc = (if r = 0 then q else q + 1)"
    using "1.prems"(2) split_parts(3)[of t] by (simp add: q_def r_def)
  have i: "int i < cc" by fact
  have acc: "acc = replicate i 30" by fact
  have rem: "t - of_nat i * 30 = 30 * (of_int (q - int i)) + r"
    by (simp add: t algebra_simps)
  have sc: "splitClosed t =
     (if r = 0 then replicate (nat q) 30
      else if r < 10 then replicate (nat q - 1) 30 @ [30 + r]
      else replicate (nat q) 30 @ [r])"
    unfolding splitClosed_def Let_def q_def r_def ..
  show ?case
  proof (cases "int i + 1 < cc")
    case True
    then have "1 \<le> q - int i" "r = 0 \<longrightarrow> 2 \<le> q - int i"
      using cc by (auto split: if_splits)
    then have "(1::rat) \<le> of_int (q - int i)" "r = 0 \<longrightarrow> (2::rat) \<le> of_int (q - int i)"
      by (simp_all only: of_int_le_iff[symmetric, where 'a = rat] of_int_1 of_int_numeral)
    then have big: "30 < t - of_nat i * 30"
      unfolding rem using r by (cases "r = 0") auto
    then have step: "splitLoop t cc i acc = splitLoop t cc (i + 1) (acc @ [30])"
      using i by (subst splitLoop.simps) (simp add: CHUNK_MINUTES_def MIN_LAST_CHUNK_def Let_def)
    have "splitLoop t cc (i + 1) (acc @ [30]) = splitClosed t"
      using "1.IH"[of "t - of_nat i * CHUNK_MINUTES" "min CHUNK_MINUTES (t - of_nat i * CHUNK_MINUTES)"]
        i True acc big "1.prems"(1,2)
      by (simp add: CHUNK_MINUTES_def MIN_LAST_CHUNK_def replicate_append_same)
    with step show ?thesis by simp
  next
    case False
    with i have last: "int i = cc - 1" by simp
    show ?thesis
    proof (cases "r = 0")
      case True
      then have iq: "int i = q - 1" using last cc by simp
      then have "q - int i = 1" by simp
      then have rem30: "t - of_nat i * 30 = 30" unfolding rem using True by simp
      have exit: "splitLoop t cc (i + 1) (acc @ [30]) = acc @ [30]"
        using last by (subst splitLoop.simps) simp
      have "splitLoop t cc i acc = acc @ [30]"
        using i rem30 exit
        by (subst splitLoop.simps) (simp add: CHUNK_MINUTES_def MIN_LAST_CHUNK_def Let_def)
      moreover have "nat q = i + 1" using iq by simp
      ultimately show ?thesis
        using True acc
        by (simp add: sc replicate_append_same)
    next
      case False
      then have iq: "int i = q" using last cc by simp
      then have remr: "t - of_nat i * 30 = r" unfolding rem by simp
      have ne: "0 < length acc" using acc iq q by simp
      show ?thesis
      proof (cases "r < 10")
        case True
        have "splitLoop t cc i acc = acc[length acc - 1 := acc ! (length acc - 1) + r]"
          using i remr True r ne
          by (subst splitLoop.simps) (simp add: CHUNK_MINUTES_def MIN_LAST_CHUNK_def Let_def)
        moreover have "acc[length acc - 1 := acc ! (length acc - 1) + r] = replicate (i - 1) 30 @ [30 + r]"
        proof -
          define p where "p = replicate (i - 1) (30::rat)"
          have acc': "acc = p @ [30]"
            using acc ne by (cases i) (simp_all add: p_def replicate_append_same)
          have "(p @ [30])[length p := (p @ [30]) ! length p + r] = p @ [30 + r]"
            by simp
          moreover have "length acc - 1 = length p" by (simp add: acc')
          ultimately have "acc[length acc - 1 := acc ! (length acc - 1) + r] = p @ [30 + r]"
            by (simp add: acc')
          then show ?thesis by (simp only: p_def)
        qed
        moreover have "nat q = i" using iq by simp
        ultimately show ?thesis
          using True False
          by (simp add: sc)
      next
        case ge: False
        have exit: "splitLoop t cc (i + 1) (acc @ [r]) = acc @ [r]"
          using last by (subst splitLoop.simps) simp
        have "splitLoop t cc i acc = acc @ [r]"
          using i remr ge r exit
          by (subst splitLoop.simps) (simp add: CHUNK_MINUTES_def MIN_LAST_CHUNK_def Let_def)
        moreover have "nat q = i" using iq by simp
        ultimately show ?thesis
          using ge False acc
          by (simp add: sc)
      qed
    qed
  qed
qed

lemma splitChunks_closed: "30 \<le> t \<Longrightarrow> splitChunks t = splitClosed t"
proof -
  assume t: "30 \<le> t"
  define cc where "cc = \<lceil>t / CHUNK_MINUTES\<rceil>"
  have "1 \<le> \<lfloor>t / 30\<rfloor>" by (rule split_parts(4)[OF t])
  then have "1 \<le> cc" using split_parts(3)[of t] by (simp add: cc_def)
  then have "max 1 cc = cc" "int 0 < cc" by simp_all
  then show ?thesis
    using splitLoop_closed[OF t cc_def, of 0 "[]"]
    by (simp add: splitChunks_def cc_def[symmetric])
qed

lemma sum_list_splitClosed: "30 \<le> t \<Longrightarrow> sum_list (splitClosed t) = t"
proof -
  assume t: "30 \<le> t"
  define q where "q = \<lfloor>t / 30\<rfloor>"
  define r where "r = t - 30 * of_int q"
  have eq: "t = 30 * of_int q + r" by (simp add: r_def)
  have q: "1 \<le> q" using split_parts(4)[OF t] by (simp add: q_def)
  have n: "(of_nat (nat q) :: rat) = of_int q" "(of_nat (nat q - 1) :: rat) = of_int q - 1"
    using q by (simp_all add: of_nat_diff)
  have sc: "splitClosed t =
     (if r = 0 then replicate (nat q) 30
      else if r < 10 then replicate (nat q - 1) 30 @ [30 + r]
      else replicate (nat q) 30 @ [r])"
    unfolding splitClosed_def Let_def q_def r_def ..
  show ?thesis
    unfolding sc using eq n by (simp add: sum_list_replicate algebra_simps)
qed

lemma set_splitClosed: "30 \<le> t \<Longrightarrow> m \<in> set (splitClosed t) \<Longrightarrow> 10 \<le> m \<and> m < 40"
proof -
  assume t: "30 \<le> t" and m: "m \<in> set (splitClosed t)"
  define r where "r = t - 30 * of_int \<lfloor>t / 30\<rfloor>"
  have r: "0 \<le> r" "r < 30" using split_parts(1,2)[of t] by (simp_all add: r_def)
  have sc: "splitClosed t =
     (if r = 0 then replicate (nat \<lfloor>t / 30\<rfloor>) 30
      else if r < 10 then replicate (nat \<lfloor>t / 30\<rfloor> - 1) 30 @ [30 + r]
      else replicate (nat \<lfloor>t / 30\<rfloor>) 30 @ [r])"
    unfolding splitClosed_def Let_def r_def ..
  from m show ?thesis
    unfolding sc using r by (auto split: if_splits)
qed

lemma splitClosed_nonempty: "30 \<le> t \<Longrightarrow> splitClosed t \<noteq> []"
proof -
  assume t: "30 \<le> t"
  have "1 \<le> \<lfloor>t / 30\<rfloor>" by (rule split_parts(4)[OF t])
  then have "0 < nat \<lfloor>t / 30\<rfloor>" by simp
  then show ?thesis
    unfolding splitClosed_def Let_def by auto
qed

lemma floor_rat_numeral: "\<lfloor>(numeral a :: rat) / numeral b\<rfloor> = numeral a div numeral b"
  using floor_divide_of_int_eq[of "numeral a" "numeral b", where 'a = rat] by simp

lemma totalMinutesOf_ge: "30 \<le> totalMinutesOf a"
  by (simp add: totalMinutesOf_def)

lemma dayMs_pos: "0 < dayMs"
  by (simp add: dayMs_def)

lemma startOfDay_eq: "startOfDay t = (t div dayMs) * dayMs"
  unfolding startOfDay_def by (simp add: minus_mod_eq_div_mult)

lemma toISODate_plusDays: "toISODate (plusDays (startOfDay t) d) = isoDate (dayNumber t + d)"
proof -
  have "plusDays (startOfDay t) d = (dayNumber t + d) * dayMs"
    by (simp add: plusDays_def startOfDay_eq dayNumber_def algebra_simps)
  then show ?thesis
    using dayMs_pos by (simp add: toISODate_def dayNumber_def)
qed

lemma toISODate_startOfDay: "toISODate (startOfDay t) = isoDate (dayNumber t)"
  using toISODate_plusDays[of t 0] by (simp add: plusDays_def)

lemma floor_diffDays: "\<lfloor>diffDays a b\<rfloor> = (a - b) div dayMs"
  unfolding diffDays_def by (rule floor_divide_of_int_eq)

lemma windowLenOf_range: "1 \<le> windowLenOf viewStart a \<and> windowLenOf viewStart a \<le> 7"
proof -
  define lastDay where "lastDay = min (startOfDay (dueISO a)) (plusDays viewStart 6)"
  have "lastDay - viewStart \<le> 6 * dayMs"
    by (simp add: lastDay_def plusDays_def min_def)
  then have "(lastDay - viewStart) div dayMs \<le> (6 * dayMs) div dayMs"
    by (rule zdiv_mono1) (rule dayMs_pos)
  then have "(lastDay - viewStart) div dayMs \<le> 6"
    using dayMs_pos by simp
  then show ?thesis
    by (simp add: windowLenOf_def Let_def floor_diffDays lastDay_def[symmetric])
qed

lemma dayIndexOf_range:
  assumes "i < n" "1 \<le> L"
  shows "0 \<le> dayIndexOf n L i \<and> dayIndexOf n L i \<le> L - 1"
proof -
  define ratio :: rat where "ratio = (if n = 1 then 0 else of_nat i / of_int (int n - 1))"
  have r0: "0 \<le> ratio" using assms(1) by (simp add: ratio_def)
  have r1: "ratio \<le> 1"
  proof (cases "n = 1")
    case True
    then show ?thesis by (simp add: ratio_def)
  next
    case False
    with assms(1) have "(of_nat i :: rat) \<le> of_int (int n - 1)" "(0::rat) < of_int (int n - 1)"
      by simp_all
    then show ?thesis using False by (simp add: ratio_def)
  qed
  have w: "(0::rat) \<le> of_int (L - 1)" using assms(2) by simp
  have lo: "0 \<le> ratio * of_int (L - 1)" using r0 w by simp
  have hi: "ratio * of_int (L - 1) \<le> of_int (L - 1)"
    using w r0 r1 by (rule mult_left_le_one_le)
  have "round (0::rat) \<le> round (ratio * of_int (L - 1))" using lo by (rule round_mono)
  moreover have "round (ratio * of_int (L - 1)) \<le> round (of_int (L - 1) :: rat)"
    using hi by (rule round_mono)
  ultimately have "0 \<le> round (ratio * of_int (L - 1)) \<and> round (ratio * of_int (L - 1)) \<le> L - 1"
    by (simp only: round_0 round_of_int)
  then show ?thesis
    unfolding dayIndexOf_def Let_def ratio_def[symmetric] by simp
qed

lemma dayIndexOf_first: "dayIndexOf n L 0 = 0"
  by (simp add: dayIndexOf_def)

lemma dayIndexOf_last: "1 < n \<Longrightarrow> dayIndexOf n L (n - 1) = L - 1"
proof -
  assume n: "1 < n"
  then have "(of_nat (n - 1) :: rat) / of_int (int n - 1) = 1"
    by simp
  moreover have "round (of_int (L - 1) :: rat) = L - 1"
    by (rule round_of_int)
  ultimately have "round ((of_nat (n - 1) :: rat) / of_int (int n - 1) * of_int (L - 1)) = L - 1"
    by (simp only: mult_1)
  moreover have "n \<noteq> 1" using n by simp
  ultimately show ?thesis
    unfolding dayIndexOf_def Let_def by (simp only: if_False) simp
qed

lemma fourDigitYear_between:
  assumes "fourDigitYear lo" "fourDigitYear hi" "lo \<le> z" "z \<le> hi"
  shows "fourDigitYear z"
  using assms YearFromDay_mono[of lo z] YearFromDay_mono[of z hi]
  by (simp add: fourDigitYear_def)

lemma isoDate_less_iff:
  assumes "fourDigitYear z1" "fourDigitYear z2"
  shows "isoDate z1 < isoDate z2 \<longleftrightarrow> z1 < z2"
proof
  assume "z1 < z2"
  then show "isoDate z1 < isoDate z2" using assms by (intro isoDate_less)
next
  assume lt: "isoDate z1 < isoDate z2"
  show "z1 < z2"
  proof (rule ccontr)
    assume "\<not> z1 < z2"
    then consider "z1 = z2" | "z2 < z1" by linarith
    then show False
    proof cases
      case 1
      with lt show False by simp
    next
      case 2
      then have "isoDate z2 < isoDate z1" using assms by (intro isoDate_less)
      with lt show False by simp
    qed
  qed
qed

lemma isoDate_inj:
  assumes "fourDigitYear z1" "fourDigitYear z2" "isoDate z1 = isoDate z2"
  shows "z1 = z2"
proof (rule ccontr)
  assume "z1 \<noteq> z2"
  then consider "z1 < z2" | "z2 < z1" by linarith
  then show False
    using isoDate_less[OF assms(1,2)] isoDate_less[OF assms(2,1)] assms(3) by cases simp_all
qed

lemma clampToView_isoDate:
  assumes "fourDigitYear T" "fourDigitYear (T + 6)" "fourDigitYear z"
  shows "clampToView (isoDate z) (isoDate T) (isoDate (T + 6)) = isoDate (max T (min (T + 6) z))"
  unfolding clampToView_def
  using isoDate_less_iff[OF assms(3,1)] isoDate_less_iff[OF assms(2,3)]
  by (simp add: max_def min_def)

lemma clampToView_bounds:
  assumes "lo \<le> hi"
  shows "lo \<le> clampToView s lo hi \<and> clampToView s lo hi \<le> hi"
  using assms unfolding clampToView_def by auto

lemma window_bounds_ordered:
  assumes "clockOK now"
  shows "toISODate (startOfDay now) \<le> toISODate (plusDays (startOfDay now) 6)"
proof -
  have "isoDate (dayNumber now) < isoDate (dayNumber now + 6)"
    using assms by (intro isoDate_less) (simp_all add: clockOK_def)
  then show ?thesis by (simp add: toISODate_plusDays toISODate_startOfDay)
qed

lemma windowDates_iff:
  "s \<in> set (windowDates now) \<longleftrightarrow> (\<exists>d. 0 \<le> d \<and> d \<le> 6 \<and> s = isoDate (dayNumber now + d))"
proof
  assume "s \<in> set (windowDates now)"
  then obtain k where "k < 7" "s = isoDate (dayNumber now + int k)"
    by (auto simp: windowDates_def toISODate_plusDays)
  then show "\<exists>d. 0 \<le> d \<and> d \<le> 6 \<and> s = isoDate (dayNumber now + d)"
    by (intro exI[of _ "int k"]) simp
next
  assume "\<exists>d. 0 \<le> d \<and> d \<le> 6 \<and> s = isoDate (dayNumber now + d)"
  then obtain d where d: "0 \<le> d" "d \<le> 6" "s = isoDate (dayNumber now + d)" by blast
  then have "nat d \<in> set [0..<7]" "s = isoDate (dayNumber now + int (nat d))" by simp_all
  then have "s \<in> (\<lambda>k. isoDate (dayNumber now + int k)) ` set [0..<7]" by blast
  then show "s \<in> set (windowDates now)"
    unfolding windowDates_def toISODate_plusDays by (simp only: set_map)
qed

lemma dayIndexOf_int:
  assumes "1 < n"
  shows "dayIndexOf n L i =
    (if L = 1 then 0 else (2 * int i * (L - 1) + (int n - 1)) div (2 * (int n - 1)))"
proof -
  define A where "A = 2 * int i * (L - 1) + (int n - 1)"
  define B where "B = 2 * (int n - 1)"
  have B: "(of_int B :: rat) \<noteq> 0" using assms by (simp add: B_def)
  have n1: "(of_int (int n - 1) :: rat) \<noteq> 0" using assms by simp
  have "(of_nat i :: rat) / of_int (int n - 1) * of_int (L - 1) + 1 / 2 = of_int A / of_int B"
    using n1 by (simp add: A_def B_def field_simps)
  then have "round ((of_nat i :: rat) / of_int (int n - 1) * of_int (L - 1)) = A div B"
    unfolding round_def by (simp only: floor_divide_of_int_eq)
  moreover have "n \<noteq> 1" using assms by simp
  ultimately show ?thesis
    unfolding dayIndexOf_def Let_def A_def B_def by (simp only: if_False)
qed

lemma planChunk_fields:
  "key (planChunk vs ov a cm L days i) = chunkKey (id_a a) i"
  "assignmentId (planChunk vs ov a cm L days i) = id_a a"
  "minutes (planChunk vs ov a cm L days i) = cm ! i"
  "dueISO_c (planChunk vs ov a cm L days i) = dueISO a"
  "done_c (planChunk vs ov a cm L days i) = (done_ov (overrideAt ov (chunkKey (id_a a) i)) = Some True)"
  "dayISO (planChunk vs ov a cm L days i) =
     clampToView
       (case dayISO_ov (overrideAt ov (chunkKey (id_a a) i)) of
          None \<Rightarrow> days ! nat (dayIndexOf (length cm) L i) | Some d \<Rightarrow> d)
       (toISODate vs) (toISODate (plusDays vs 6))"
  by (simp_all add: planChunk_def Let_def)

lemma planAssignment_stale: "stale now a \<Longrightarrow> planAssignment (startOfDay now) ov a = []"
  by (simp add: planAssignment_def stale_def)

lemma planAssignment_fresh:
  "\<not> stale now a \<Longrightarrow>
   planAssignment (startOfDay now) ov a =
     map (planChunk (startOfDay now) ov a (splitChunks (totalMinutesOf a))
            (windowLenOf (startOfDay now) a)
            (map (\<lambda>d. toISODate (plusDays (startOfDay now) (int d)))
               [0..<nat (windowLenOf (startOfDay now) a)]))
       [0..<length (splitChunks (totalMinutesOf a))]"
  by (simp add: planAssignment_def stale_def Let_def)

lemma set_buildDayPlan:
  "set (buildDayPlan now items ov) = (\<Union>a\<in>set items. set (planAssignment (startOfDay now) ov a))"
  by (simp add: buildDayPlan_def Let_def set_sortBy)

lemma mset_buildDayPlan:
  "mset (buildDayPlan now items ov) =
     (\<Sum>a\<in>#mset items. mset (planAssignment (startOfDay now) ov a))"
proof -
  have "mset (concat (map f xs)) = (\<Sum>a\<in>#mset xs. mset (f a))" for f :: "Assignment \<Rightarrow> PlanChunk list" and xs
    by (induction xs) simp_all
  then show ?thesis
    by (simp add: buildDayPlan_def Let_def mset_sortBy)
qed

lemma planAssignment_id:
  "c \<in> set (planAssignment (startOfDay now) ov a) \<Longrightarrow> assignmentId c = id_a a \<and> \<not> stale now a"
  by (cases "stale now a") (auto simp: planAssignment_stale planAssignment_fresh planChunk_fields)

lemma default_day:
  assumes "i < n" "L = windowLenOf (startOfDay now) a"
  shows "map (\<lambda>d. toISODate (plusDays (startOfDay now) (int d))) [0..<nat L] ! nat (dayIndexOf n L i)
       = isoDate (dayNumber now + dayIndexOf n L i)"
proof -
  have L: "1 \<le> L" using windowLenOf_range[of "startOfDay now" a] assms(2) by simp
  have r: "0 \<le> dayIndexOf n L i" "dayIndexOf n L i \<le> L - 1"
    using dayIndexOf_range[OF assms(1) L] by simp_all
  then have lt: "nat (dayIndexOf n L i) < nat L" using L by linarith
  then show ?thesis
    using r by (simp add: toISODate_plusDays)
qed

lemma dayISO_default_in_window:
  assumes "clockOK now" "0 \<le> d" "d \<le> 6"
  shows "clampToView (isoDate (dayNumber now + d)) (toISODate (startOfDay now))
           (toISODate (plusDays (startOfDay now) 6)) = isoDate (dayNumber now + d)"
proof -
  have f: "fourDigitYear (dayNumber now)" "fourDigitYear (dayNumber now + 6)"
    using assms(1) by (simp_all add: clockOK_def)
  have "fourDigitYear (dayNumber now + d)"
    using f assms(2,3) by (intro fourDigitYear_between[OF f]) simp_all
  then show ?thesis
    using clampToView_isoDate[OF f, of "dayNumber now + d"] assms(2,3)
    by (simp add: toISODate_plusDays toISODate_startOfDay max_def min_def)
qed

lemma sum_list_perm:
  fixes f :: "'a \<Rightarrow> rat"
  assumes "mset xs = mset ys"
  shows "sum_list (map f xs) = sum_list (map f ys)"
proof -
  have "sum_mset (mset (map f xs)) = sum_mset (mset (map f ys))"
    using assms by simp
  then show ?thesis by (simp only: sum_mset_sum_list)
qed

lemma filter_perm:
  assumes "mset xs = mset ys"
  shows "mset (filter P xs) = mset (filter P ys)"
  using assms by simp

lemma minutes_chunksOf_concat:
  "sum_list (map minutes (chunksOf x (concat (map g xs))))
     = sum_list (map (\<lambda>a. sum_list (map minutes (chunksOf x (g a)))) xs)"
  by (induction xs) (simp_all add: chunksOf_def)

lemma minutes_planAssignment_other:
  "id_a a \<noteq> x \<Longrightarrow> sum_list (map minutes (chunksOf x (planAssignment (startOfDay now) ov a))) = 0"
proof -
  assume "id_a a \<noteq> x"
  then have "chunksOf x (planAssignment (startOfDay now) ov a) = []"
    unfolding chunksOf_def using planAssignment_id[of _ now ov a] by (auto simp: filter_empty_conv)
  then show ?thesis by simp
qed

lemma minutes_planAssignment:
  "\<not> stale now a \<Longrightarrow>
     map minutes (planAssignment (startOfDay now) ov a) = splitChunks (totalMinutesOf a)"
  by (simp add: planAssignment_fresh planChunk_fields map_nth o_def)

lemma minutes_planAssignment_own:
  assumes "\<not> stale now a"
  shows "sum_list (map minutes (chunksOf (id_a a) (planAssignment (startOfDay now) ov a)))
           = totalMinutesOf a"
proof -
  have "chunksOf (id_a a) (planAssignment (startOfDay now) ov a) = planAssignment (startOfDay now) ov a"
    unfolding chunksOf_def using planAssignment_id[of _ now ov a] by (simp add: filter_id_conv)
  then show ?thesis
    using assms totalMinutesOf_ge[of a]
    by (simp add: minutes_planAssignment splitChunks_closed sum_list_splitClosed)
qed

lemma sum_list_zero:
  fixes h :: "'a \<Rightarrow> rat"
  shows "(\<And>c. c \<in> set xs \<Longrightarrow> h c = 0) \<Longrightarrow> sum_list (map h xs) = 0"
  by (induction xs) simp_all

lemma sum_list_single:
  fixes h :: "Assignment \<Rightarrow> rat"
  assumes "distinct (map id_a xs)" "a \<in> set xs" "\<And>b. b \<in> set xs \<Longrightarrow> id_a b \<noteq> id_a a \<Longrightarrow> h b = 0"
  shows "sum_list (map h xs) = h a"
  using assms
proof (induction xs)
  case Nil
  then show ?case by simp
next
  case (Cons b xs)
  show ?case
  proof (cases "b = a")
    case True
    have "\<And>c. c \<in> set xs \<Longrightarrow> h c = 0"
    proof -
      fix c assume c: "c \<in> set xs"
      then have "id_a c \<in> id_a ` set xs" by (rule imageI)
      then have "id_a c \<noteq> id_a a" using Cons.prems(1) True by auto
      then show "h c = 0" using Cons.prems(3) c by simp
    qed
    then have "sum_list (map h xs) = 0" by (rule sum_list_zero)
    with True show ?thesis by simp
  next
    case False
    then have a: "a \<in> set xs" using Cons.prems(2) by simp
    then have "id_a a \<in> id_a ` set xs" by (rule imageI)
    then have "id_a b \<noteq> id_a a" using Cons.prems(1) by auto
    then have "h b = 0" using Cons.prems(3) by simp
    moreover have "sum_list (map h xs) = h a"
      using Cons.IH a Cons.prems(1,3) by simp
    ultimately show ?thesis by simp
  qed
qed

lemma minutes_chunksOf_buildDayPlan:
  "sum_list (map minutes (chunksOf x (buildDayPlan now items ov)))
     = sum_list (map (\<lambda>a. sum_list (map minutes (chunksOf x (planAssignment (startOfDay now) ov a)))) items)"
proof -
  let ?g = "planAssignment (startOfDay now) ov"
  let ?h = "\<lambda>a. sum_list (map minutes (chunksOf x (?g a)))"
  have "mset (chunksOf x (buildDayPlan now items ov))
          = mset (chunksOf x (concat (map ?g (sortBy dueCmp items))))"
    unfolding chunksOf_def buildDayPlan_def Let_def by (rule filter_perm) (rule mset_sortBy)
  then have "sum_list (map minutes (chunksOf x (buildDayPlan now items ov)))
          = sum_list (map minutes (chunksOf x (concat (map ?g (sortBy dueCmp items)))))"
    by (rule sum_list_perm)
  also have "\<dots> = sum_list (map ?h (sortBy dueCmp items))"
    by (rule minutes_chunksOf_concat)
  also have "\<dots> = sum_list (map ?h items)"
    by (rule sum_list_perm) (rule mset_sortBy)
  finally show ?thesis .
qed

lemma chunksOf_concat:
  "chunksOf x (concat (map g xs)) = concat (map (\<lambda>a. chunksOf x (g a)) xs)"
  by (induction xs) (simp_all add: chunksOf_def)

lemma chunksOf_planAssignment:
  "chunksOf x (planAssignment (startOfDay now) ov a)
     = (if id_a a = x then planAssignment (startOfDay now) ov a else [])"
  unfolding chunksOf_def using planAssignment_id[of _ now ov a]
  by (auto simp: filter_empty_conv filter_id_conv)

lemma mset_concat_single:
  fixes f :: "Assignment \<Rightarrow> 'b list"
  assumes "distinct (map id_a xs)" "a \<in> set xs"
    and "\<And>b. b \<in> set xs \<Longrightarrow> id_a b \<noteq> id_a a \<Longrightarrow> f b = []"
  shows "mset (concat (map f xs)) = mset (f a)"
  using assms
proof (induction xs)
  case Nil
  then show ?case by simp
next
  case (Cons b xs)
  show ?case
  proof (cases "b = a")
    case True
    have "\<And>c. c \<in> set xs \<Longrightarrow> f c = []"
    proof -
      fix c assume c: "c \<in> set xs"
      then have "id_a c \<in> id_a ` set xs" by (rule imageI)
      then have "id_a c \<noteq> id_a a" using Cons.prems(1) True by auto
      then show "f c = []" using Cons.prems(3) c by simp
    qed
    then have "concat (map f xs) = []" by simp
    with True show ?thesis by simp
  next
    case False
    then have a: "a \<in> set xs" using Cons.prems(2) by simp
    then have "id_a a \<in> id_a ` set xs" by (rule imageI)
    then have "id_a b \<noteq> id_a a" using Cons.prems(1) by auto
    then have "f b = []" using Cons.prems(3) by simp
    moreover have "mset (concat (map f xs)) = mset (f a)"
      using Cons.IH a Cons.prems(1,3) by simp
    ultimately show ?thesis by simp
  qed
qed

lemma mset_concat_perm:
  assumes "mset xs = mset ys"
  shows "mset (concat (map f xs)) = mset (concat (map f ys))"
proof -
  have "mset (concat (map f zs)) = (\<Sum>a\<in>#mset zs. mset (f a))" for zs
    by (induction zs) simp_all
  then show ?thesis using assms by simp
qed

lemma mset_chunksOf_buildDayPlan:
  assumes "distinct (map id_a items)" "a \<in> set items"
  shows "mset (chunksOf (id_a a) (buildDayPlan now items ov))
           = mset (planAssignment (startOfDay now) ov a)"
proof -
  let ?g = "planAssignment (startOfDay now) ov"
  let ?f = "\<lambda>b. chunksOf (id_a a) (?g b)"
  have "mset (chunksOf (id_a a) (buildDayPlan now items ov))
          = mset (chunksOf (id_a a) (concat (map ?g (sortBy dueCmp items))))"
    unfolding chunksOf_def buildDayPlan_def Let_def by (rule filter_perm) (rule mset_sortBy)
  also have "\<dots> = mset (concat (map ?f (sortBy dueCmp items)))"
    by (simp only: chunksOf_concat)
  also have "\<dots> = mset (concat (map ?f items))"
    by (rule mset_concat_perm) (rule mset_sortBy)
  also have "\<dots> = mset (?f a)"
    using assms by (rule mset_concat_single) (simp add: chunksOf_planAssignment)
  also have "\<dots> = mset (?g a)"
    by (simp add: chunksOf_planAssignment)
  finally show ?thesis .
qed

lemma chunk_origin:
  assumes "c \<in> set (buildDayPlan now items ov)"
  obtains a i where "a \<in> set items" "\<not> stale now a"
    "i < length (splitChunks (totalMinutesOf a))"
    "c = planChunk (startOfDay now) ov a (splitChunks (totalMinutesOf a))
            (windowLenOf (startOfDay now) a)
            (map (\<lambda>d. toISODate (plusDays (startOfDay now) (int d)))
               [0..<nat (windowLenOf (startOfDay now) a)]) i"
proof -
  from assms obtain a where a: "a \<in> set items" "c \<in> set (planAssignment (startOfDay now) ov a)"
    by (auto simp: set_buildDayPlan)
  then have fresh: "\<not> stale now a" using planAssignment_id by blast
  from a(2) obtain i where "i < length (splitChunks (totalMinutesOf a))"
    "c = planChunk (startOfDay now) ov a (splitChunks (totalMinutesOf a))
            (windowLenOf (startOfDay now) a)
            (map (\<lambda>d. toISODate (plusDays (startOfDay now) (int d)))
               [0..<nat (windowLenOf (startOfDay now) a)]) i"
    unfolding planAssignment_fresh[OF fresh] by auto
  with a(1) fresh show ?thesis by (rule that)
qed

lemma chunk_present:
  assumes "a \<in> set items" "\<not> stale now a" "i < length (splitChunks (totalMinutesOf a))"
  shows "planAssignment (startOfDay now) ov a ! i \<in> set (buildDayPlan now items ov)"
    and "key (planAssignment (startOfDay now) ov a ! i) = chunkKey (id_a a) i"
proof -
  have len: "i < length (planAssignment (startOfDay now) ov a)"
    using assms(2,3) by (simp add: planAssignment_fresh)
  then have "planAssignment (startOfDay now) ov a ! i \<in> set (planAssignment (startOfDay now) ov a)"
    by (rule nth_mem)
  then show "planAssignment (startOfDay now) ov a ! i \<in> set (buildDayPlan now items ov)"
    using assms(1) by (auto simp: set_buildDayPlan)
  show "key (planAssignment (startOfDay now) ov a ! i) = chunkKey (id_a a) i"
    using assms(2,3) by (simp add: planAssignment_fresh planChunk_fields)
qed

lemma chunk_minutes_range:
  assumes "c \<in> set (buildDayPlan now items ov)"
  shows "10 \<le> minutes c \<and> minutes c < 40"
proof -
  from assms obtain a i where i: "i < length (splitChunks (totalMinutesOf a))"
    and c: "c = planChunk (startOfDay now) ov a (splitChunks (totalMinutesOf a))
            (windowLenOf (startOfDay now) a)
            (map (\<lambda>d. toISODate (plusDays (startOfDay now) (int d)))
               [0..<nat (windowLenOf (startOfDay now) a)]) i"
    by (rule chunk_origin)
  have "minutes c = splitChunks (totalMinutesOf a) ! i" by (simp add: c planChunk_fields)
  then have "minutes c \<in> set (splitClosed (totalMinutesOf a))"
    using i by (simp add: splitChunks_closed totalMinutesOf_ge)
  then show ?thesis using set_splitClosed[OF totalMinutesOf_ge] by blast
qed

lemma chunk_day:
  assumes "c \<in> set (buildDayPlan now items ov)"
  obtains d where "0 \<le> d" "d \<le> 6"
    "dayISO c = clampToView
        (case dayISO_ov (overrideAt ov (key c)) of
           None \<Rightarrow> isoDate (dayNumber now + d) | Some s \<Rightarrow> s)
        (toISODate (startOfDay now)) (toISODate (plusDays (startOfDay now) 6))"
proof -
  from assms obtain a i where i: "i < length (splitChunks (totalMinutesOf a))"
    and c: "c = planChunk (startOfDay now) ov a (splitChunks (totalMinutesOf a))
            (windowLenOf (startOfDay now) a)
            (map (\<lambda>d. toISODate (plusDays (startOfDay now) (int d)))
               [0..<nat (windowLenOf (startOfDay now) a)]) i"
    by (rule chunk_origin)
  define n where "n = length (splitChunks (totalMinutesOf a))"
  define L where "L = windowLenOf (startOfDay now) a"
  define d where "d = dayIndexOf n L i"
  have L: "1 \<le> L" "L \<le> 7" using windowLenOf_range[of "startOfDay now" a] by (simp_all add: L_def)
  have "0 \<le> d" "d \<le> L - 1"
    using dayIndexOf_range[of i n L] i L(1) by (simp_all add: d_def n_def)
  then have d: "0 \<le> d" "d \<le> 6" using L(2) by simp_all
  have "map (\<lambda>d. toISODate (plusDays (startOfDay now) (int d))) [0..<nat L] ! nat (dayIndexOf n L i)
       = isoDate (dayNumber now + d)"
    unfolding d_def using i by (intro default_day) (simp_all add: n_def L_def)
  then have "dayISO c = clampToView
        (case dayISO_ov (overrideAt ov (key c)) of
           None \<Rightarrow> isoDate (dayNumber now + d) | Some s \<Rightarrow> s)
        (toISODate (startOfDay now)) (toISODate (plusDays (startOfDay now) 6))"
    by (simp add: c planChunk_fields n_def L_def split: option.split)
  with d show ?thesis by (rule that)
qed

lemma planChunk_cong:
  assumes "ov (chunkKey (id_a a) i) = ov' (chunkKey (id_a a) i)"
  shows "planChunk vs ov a cm L days i = planChunk vs ov' a cm L days i"
  using assms by (simp add: planChunk_def overrideAt_def)

lemma planAssignment_cong:
  assumes "\<And>i. ov (chunkKey (id_a a) i) = ov' (chunkKey (id_a a) i)"
  shows "planAssignment vs ov a = planAssignment vs ov' a"
  unfolding planAssignment_def Let_def
  using assms by (simp add: planChunk_cong[of ov a _ ov'])

lemma buildDayPlan_cong:
  assumes "\<And>a i. a \<in> set items \<Longrightarrow> ov (chunkKey (id_a a) i) = ov' (chunkKey (id_a a) i)"
  shows "buildDayPlan now items ov = buildDayPlan now items ov'"
proof -
  have "map (planAssignment (startOfDay now) ov) (sortBy dueCmp items)
      = map (planAssignment (startOfDay now) ov') (sortBy dueCmp items)"
    using assms by (intro map_cong refl planAssignment_cong) (simp add: set_sortBy)
  then show ?thesis unfolding buildDayPlan_def Let_def by (rule arg_cong)
qed

lemma overrideAt_withDone:
  "overrideAt (withDone ov k b) k' =
     (if k' = k then (overrideAt ov k)\<lparr>done_ov := Some b\<rparr> else overrideAt ov k')"
  by (simp add: withDone_def overrideAt_def)

lemma planChunk_withDone:
  "planChunk vs (withDone ov k True) a cm L days i = markDone k (planChunk vs ov a cm L days i)"
  by (simp add: planChunk_def Let_def overrideAt_withDone markDone_def)

lemma planAssignment_withDone:
  "planAssignment vs (withDone ov k True) a = map (markDone k) (planAssignment vs ov a)"
  by (simp add: planAssignment_def Let_def planChunk_withDone)

lemma chunkCmp_markDone: "chunkCmp (markDone k u) (markDone k v) = chunkCmp u v"
  by (simp add: chunkCmp_def markDone_def)

lemma buildDayPlan_withDone:
  "buildDayPlan now items (withDone ov k True) = map (markDone k) (buildDayPlan now items ov)"
proof -
  let ?g = "planAssignment (startOfDay now) ov"
  let ?xs = "sortBy dueCmp items"
  have c: "concat (map (\<lambda>a. map (markDone k) (g a)) xs) = map (markDone k) (concat (map g xs))"
    for g :: "Assignment \<Rightarrow> PlanChunk list" and xs
    by (induction xs) simp_all
  have pa: "planAssignment (startOfDay now) (withDone ov k True) = (\<lambda>a. map (markDone k) (?g a))"
    by (rule ext) (rule planAssignment_withDone)
  have "buildDayPlan now items (withDone ov k True)
      = sortBy chunkCmp (concat (map (\<lambda>a. map (markDone k) (?g a)) ?xs))"
    by (simp only: buildDayPlan_def Let_def pa)
  also have "\<dots> = sortBy chunkCmp (map (markDone k) (concat (map ?g ?xs)))"
    by (simp only: c)
  also have "\<dots> = map (markDone k) (sortBy chunkCmp (concat (map ?g ?xs)))"
    by (rule map_sortBy[symmetric]) (rule chunkCmp_markDone)
  also have "\<dots> = map (markDone k) (buildDayPlan now items ov)"
    by (simp add: buildDayPlan_def Let_def)
  finally show ?thesis .
qed

lemma key_planAssignment:
  "map key (planAssignment vs ov a) = map key (planAssignment vs ov' a)"
  by (simp add: planAssignment_def Let_def planChunk_fields)

lemma keys_buildDayPlan:
  "mset (map key (buildDayPlan now items ov')) = mset (map key (buildDayPlan now items ov))"
proof -
  have c: "map key (concat (map (planAssignment vs o1) xs))
         = map key (concat (map (planAssignment vs o2) xs))" for vs o1 o2 xs
    by (induction xs) (simp_all add: key_planAssignment[of vs o1 _ o2])
  have k: "mset (map key (buildDayPlan now items o1))
      = mset (map key (concat (map (planAssignment (startOfDay now) o1) (sortBy dueCmp items))))" for o1
    by (simp add: buildDayPlan_def Let_def mset_sortBy)
  show ?thesis
    unfolding k by (rule arg_cong[where f = mset]) (rule c)
qed

lemma markDone_key: "key (markDone k c) = key c"
  by (simp add: markDone_def)

lemma dayIndexOf_formula:
  assumes "1 \<le> n"
  shows "dayIndexOf n L i
       = (if n = 1 then 0 else round ((of_nat i :: rat) / of_nat (n - 1) * of_int (L - 1)))"
proof (cases "n = 1")
  case True
  then show ?thesis by (simp add: dayIndexOf_def)
next
  case False
  have n: "(of_int (int n - 1) :: rat) = of_nat (n - 1)"
    using assms by (simp add: of_nat_diff)
  show ?thesis
  proof (cases "L = 1")
    case True
    then show ?thesis by (simp add: dayIndexOf_def)
  next
    case L: False
    show ?thesis
      unfolding dayIndexOf_def Let_def n using False L by (simp only: if_False)
  qed
qed

lemma last_day_of_window:
  assumes "startOfDay now \<le> startOfDay (dueISO a)"
  shows "plusDays (startOfDay now) (windowLenOf (startOfDay now) a - 1)
       = min (startOfDay (dueISO a)) (plusDays (startOfDay now) 6)"
proof -
  define T where "T = dayNumber now"
  define D where "D = dayNumber (dueISO a)"
  have vs: "startOfDay now = T * dayMs" and dd: "startOfDay (dueISO a) = D * dayMs"
    by (simp_all add: startOfDay_eq T_def D_def dayNumber_def)
  have TD: "T \<le> D"
    using assms dayMs_pos unfolding vs dd by (simp add: mult_le_cancel_right)
  have ve: "plusDays (T * dayMs) 6 = (T + 6) * dayMs"
    by (simp add: plusDays_def algebra_simps)
  have mn: "min (D * dayMs) ((T + 6) * dayMs) = min D (T + 6) * dayMs"
    using dayMs_pos by (simp add: min_def mult_le_cancel_right)
  have "min (D * dayMs) ((T + 6) * dayMs) - T * dayMs = (min D (T + 6) - T) * dayMs"
    unfolding mn by (simp add: algebra_simps)
  then have "(min (D * dayMs) ((T + 6) * dayMs) - T * dayMs) div dayMs = min D (T + 6) - T"
    using dayMs_pos by simp
  then have w: "windowLenOf (startOfDay now) a - 1 = min D (T + 6) - T"
    using TD by (simp add: windowLenOf_def Let_def floor_diffDays dd vs ve)
  show ?thesis
    unfolding w unfolding vs dd ve mn by (simp add: plusDays_def algebra_simps)
qed

lemma toggleDone_sets_done:
  "done_ov (overrideAt ov k) \<noteq> Some True \<Longrightarrow> toggleDone ov k = withDone ov k True"
  by (cases "done_ov (overrideAt ov k)") (simp_all add: toggleDone_def)

lemma dayIndex_in_range:
  assumes "i < n"
  shows "0 \<le> dayIndexOf n (windowLenOf viewStart a) i
       \<and> nat (dayIndexOf n (windowLenOf viewStart a) i)
           < length (map (\<lambda>d. toISODate (plusDays viewStart (int d)))
                      [0..<nat (windowLenOf viewStart a)])"
proof -
  have L: "1 \<le> windowLenOf viewStart a"
    using windowLenOf_range[of viewStart a] by simp
  have "0 \<le> dayIndexOf n (windowLenOf viewStart a) i"
    "dayIndexOf n (windowLenOf viewStart a) i \<le> windowLenOf viewStart a - 1"
    using dayIndexOf_range[OF assms L] by simp_all
  then show ?thesis using L by simp
qed

section \<open>The sample inputs evaluated\<close>

lemmas isoDate_eval = isoDate_def YearFromDay_def DayFromYear_def MonthFromDay_def
  DateFromDay_def monthOfDay_def dateOfDay_def DayWithinYear_def leapDay_def InLeapYear_def
  padStart_def padZero_def showNat.simps digitChar_def

lemma example_start: "startOfDay exampleNow = 1793577600000"
  by (simp add: startOfDay_def exampleNow_def dayMs_def)

lemma example_day: "dayNumber exampleNow = 20759"
  by (simp add: dayNumber_def exampleNow_def dayMs_def)

lemma example_dates:
  "isoDate 20759 = ''2026-11-02''" "isoDate 20760 = ''2026-11-03''"
  "isoDate 20761 = ''2026-11-04''" "isoDate 20762 = ''2026-11-05''"
  "isoDate 20763 = ''2026-11-06''" "isoDate 20764 = ''2026-11-07''"
  "isoDate 20765 = ''2026-11-08''"
  by (simp_all add: isoDate_eval)

lemma example_clockOK: "clockOK exampleNow"
  by (simp add: clockOK_def example_day fourDigitYear_def YearFromDay_def DayFromYear_def)

lemma essay_fresh: "\<not> stale exampleNow essay"
  by (simp add: stale_def essay_def example_start minusDays_def dayMs_def)

lemma split_70: "splitChunks 70 = [30, 30, 10]"
  by (simp add: splitChunks_closed splitClosed_def floor_rat_numeral eval_nat_numeral)

lemma essay_total: "totalMinutesOf essay = 70"
  by (simp add: totalMinutesOf_def essay_def)

lemma essay_window: "windowLenOf (startOfDay exampleNow) essay = 4"
  unfolding example_start
  by (simp add: windowLenOf_def essay_def floor_diffDays plusDays_def startOfDay_def dayMs_def)

lemma essay_chunks:
  "planAssignment (startOfDay exampleNow) Map.empty essay =
     [\<lparr>key = ''a1|0'', assignmentId = ''a1'', course_c = None, title_c = ''Essay'',
        dueISO_c = 1793886800000, dayISO = ''2026-11-02'', minutes = 30, done_c = False\<rparr>,
      \<lparr>key = ''a1|1'', assignmentId = ''a1'', course_c = None, title_c = ''Essay'',
        dueISO_c = 1793886800000, dayISO = ''2026-11-04'', minutes = 30, done_c = False\<rparr>,
      \<lparr>key = ''a1|2'', assignmentId = ''a1'', course_c = None, title_c = ''Essay'',
        dueISO_c = 1793886800000, dayISO = ''2026-11-05'', minutes = 10, done_c = False\<rparr>]"
  by (simp add: planAssignment_fresh[OF essay_fresh] essay_total split_70 essay_window
        planChunk_def Let_def overrideAt_def emptyOverride_def dayIndexOf_int dayIndexOf_first
        toISODate_plusDays toISODate_startOfDay example_day example_dates
        clampToView_def chunkKey_def showNat.simps digitChar_def)
     (simp add: essay_def)

lemma essay_plan:
  "buildDayPlan exampleNow [essay] Map.empty =
     [\<lparr>key = ''a1|0'', assignmentId = ''a1'', course_c = None, title_c = ''Essay'',
        dueISO_c = 1793886800000, dayISO = ''2026-11-02'', minutes = 30, done_c = False\<rparr>,
      \<lparr>key = ''a1|1'', assignmentId = ''a1'', course_c = None, title_c = ''Essay'',
        dueISO_c = 1793886800000, dayISO = ''2026-11-04'', minutes = 30, done_c = False\<rparr>,
      \<lparr>key = ''a1|2'', assignmentId = ''a1'', course_c = None, title_c = ''Essay'',
        dueISO_c = 1793886800000, dayISO = ''2026-11-05'', minutes = 10, done_c = False\<rparr>]"
  by (simp add: buildDayPlan_def Let_def sortBy_def essay_chunks chunkCmp_def)

lemma farDay_date: "isoDate 20819 = ''2027-01-01''"
  by (simp add: isoDate_eval)

lemma farDay_year: "fourDigitYear 20819"
  by (simp add: fourDigitYear_def YearFromDay_def DayFromYear_def)

lemma essay_chunks_farDay:
  "planAssignment (startOfDay exampleNow) farDay essay =
     [\<lparr>key = ''a1|0'', assignmentId = ''a1'', course_c = None, title_c = ''Essay'',
        dueISO_c = 1793886800000, dayISO = ''2026-11-02'', minutes = 30, done_c = False\<rparr>,
      movedChunk,
      \<lparr>key = ''a1|2'', assignmentId = ''a1'', course_c = None, title_c = ''Essay'',
        dueISO_c = 1793886800000, dayISO = ''2026-11-05'', minutes = 10, done_c = False\<rparr>]"
  by (simp add: planAssignment_fresh[OF essay_fresh] essay_total split_70 essay_window
        planChunk_def Let_def overrideAt_def emptyOverride_def dayIndexOf_int dayIndexOf_first
        toISODate_plusDays toISODate_startOfDay example_day example_dates
        clampToView_def chunkKey_def showNat.simps digitChar_def farDay_def movedChunk_def)
     (simp add: essay_def)

lemma movedChunk_in_plan: "movedChunk \<in> set (buildDayPlan exampleNow [essay] farDay)"
  by (simp add: set_buildDayPlan essay_chunks_farDay)

lemma oldLab_stale: "stale exampleNow oldLab"
  by (simp add: stale_def oldLab_def example_start minusDays_def dayMs_def)

lemma split_61: "splitChunks 61 = [30, 31]"
  by (simp add: splitChunks_closed splitClosed_def floor_rat_numeral eval_nat_numeral)

lemma quiz_fresh: "\<not> stale exampleNow quiz"
  by (simp add: stale_def quiz_def example_start minusDays_def dayMs_def)

lemma quiz_window: "windowLenOf (startOfDay exampleNow) quiz = 4"
  unfolding example_start
  by (simp add: windowLenOf_def quiz_def floor_diffDays plusDays_def startOfDay_def dayMs_def)

lemma quiz_chunks:
  "planAssignment (startOfDay exampleNow) Map.empty quiz =
     [\<lparr>key = ''q7|0'', assignmentId = ''q7'', course_c = Some ''MATH'', title_c = ''Quiz'',
        dueISO_c = 1793886800000, dayISO = ''2026-11-02'', minutes = 30, done_c = False\<rparr>,
      \<lparr>key = ''q7|1'', assignmentId = ''q7'', course_c = Some ''MATH'', title_c = ''Quiz'',
        dueISO_c = 1793886800000, dayISO = ''2026-11-05'', minutes = 31, done_c = False\<rparr>]"
proof -
  have t: "totalMinutesOf quiz = 61" by (simp add: totalMinutesOf_def quiz_def)
  show ?thesis
    by (simp add: planAssignment_fresh[OF quiz_fresh] t split_61 quiz_window
        planChunk_def Let_def overrideAt_def emptyOverride_def dayIndexOf_int dayIndexOf_first
        toISODate_plusDays toISODate_startOfDay example_day example_dates
        clampToView_def chunkKey_def showNat.simps digitChar_def)
       (simp add: quiz_def)
qed

lemma quiz_plan:
  "buildDayPlan exampleNow [quiz] Map.empty =
     [\<lparr>key = ''q7|0'', assignmentId = ''q7'', course_c = Some ''MATH'', title_c = ''Quiz'',
        dueISO_c = 1793886800000, dayISO = ''2026-11-02'', minutes = 30, done_c = False\<rparr>,
      \<lparr>key = ''q7|1'', assignmentId = ''q7'', course_c = Some ''MATH'', title_c = ''Quiz'',
        dueISO_c = 1793886800000, dayISO = ''2026-11-05'', minutes = 31, done_c = False\<rparr>]"
  by (simp add: buildDayPlan_def Let_def sortBy_def quiz_chunks chunkCmp_def)

lemma split_30: "splitChunks 30 = [30]"
  by (simp add: splitChunks_closed splitClosed_def floor_rat_numeral eval_nat_numeral)

lemma split_half: "splitChunks (79 / 2) = [79 / 2]"
proof -
  have "\<lfloor>(79::rat) / 2 / 30\<rfloor> = 1" by (simp add: floor_eq_iff)
  then show ?thesis
    by (simp add: splitChunks_closed splitClosed_def)
qed

lemma draft_fresh: "\<not> stale exampleNow draft"
  by (simp add: stale_def draft_def example_start minusDays_def dayMs_def)

lemma draft_total: "totalMinutesOf draft = 79 / 2"
  by (simp add: totalMinutesOf_def draft_def)

lemma memo_fresh: "\<not> stale exampleNow memo"
  by (simp add: stale_def memo_def example_start minusDays_def dayMs_def)

lemma memo_window: "windowLenOf (startOfDay exampleNow) memo = 4"
  unfolding example_start
  by (simp add: windowLenOf_def memo_def floor_diffDays plusDays_def startOfDay_def dayMs_def)

lemma memo_chunks:
  "planAssignment (startOfDay exampleNow) Map.empty memo =
     [\<lparr>key = ''m2|0'', assignmentId = ''m2'', course_c = None, title_c = ''Memo'',
        dueISO_c = 1793886800000, dayISO = ''2026-11-02'', minutes = 30, done_c = False\<rparr>]"
proof -
  have t: "totalMinutesOf memo = 30" by (simp add: totalMinutesOf_def memo_def)
  show ?thesis
    by (simp add: planAssignment_fresh[OF memo_fresh] t split_30 memo_window
        planChunk_def Let_def overrideAt_def emptyOverride_def dayIndexOf_first
        toISODate_plusDays toISODate_startOfDay example_day example_dates
        clampToView_def chunkKey_def showNat.simps digitChar_def)
       (simp add: memo_def)
qed

lemma memo_plan:
  "buildDayPlan exampleNow [memo] Map.empty =
     [\<lparr>key = ''m2|0'', assignmentId = ''m2'', course_c = None, title_c = ''Memo'',
        dueISO_c = 1793886800000, dayISO = ''2026-11-02'', minutes = 30, done_c = False\<rparr>]"
  by (simp add: buildDayPlan_def Let_def sortBy_def memo_chunks)

lemma memo_due_day:
  "toISODate (min (startOfDay (dueISO memo)) (plusDays (startOfDay exampleNow) 6)) = ''2026-11-05''"
proof -
  have "min (startOfDay (dueISO memo)) (plusDays (startOfDay exampleNow) 6) = 20762 * dayMs"
    unfolding example_start by (simp add: memo_def startOfDay_def plusDays_def dayMs_def)
  then show ?thesis
    using dayMs_pos by (simp add: toISODate_def dayNumber_def example_dates)
qed

lemma essay_due_after_start: "startOfDay exampleNow \<le> startOfDay (dueISO essay)"
  unfolding example_start by (simp add: essay_def startOfDay_def dayMs_def)

section \<open>The claims\<close>

subsection \<open>Claim C1\<close>

text \<open>
  Claim C1. For an assignment of the list that the stale-item filter keeps, the minutes of
  its chunks in the plan add up to \<open>max 30 (estimateMinutes or 60)\<close>, whatever the
  override map. The chunks of an assignment are the chunks carrying its id, so the ids of
  the list are taken to be distinct.
\<close>

theorem C1_chunk_minutes_sum:
  assumes "distinct (map id_a items)" and "a \<in> set items" and "\<not> stale now a"
  shows "sum_list (map minutes (chunksOf (id_a a) (buildDayPlan now items overrides)))
           = max 30 (case estimateMinutes a of None \<Rightarrow> 60 | Some m \<Rightarrow> m)"
proof -
  let ?h = "\<lambda>b. sum_list (map minutes (chunksOf (id_a a) (planAssignment (startOfDay now) overrides b)))"
  have "sum_list (map ?h items) = ?h a"
    using assms(1,2) by (rule sum_list_single) (simp add: minutes_planAssignment_other)
  then show ?thesis
    using assms(3)
    by (simp add: minutes_chunksOf_buildDayPlan minutes_planAssignment_own totalMinutesOf_def)
qed

text \<open>
  The theorem at sample inputs that satisfy its hypotheses.
\<close>

theorem C1_chunk_minutes_sum_witness:
  "distinct (map id_a [essay, quiz]) \<and> essay \<in> set [essay, quiz] \<and> \<not> stale exampleNow essay
   \<and> sum_list (map minutes (chunksOf (id_a essay) (buildDayPlan exampleNow [essay, quiz] farDay)))
       = max 30 (case estimateMinutes essay of None \<Rightarrow> 60 | Some m \<Rightarrow> m)
   \<and> max 30 (case estimateMinutes essay of None \<Rightarrow> 60 | Some m \<Rightarrow> m) = 70"
proof -
  have d: "distinct (map id_a [essay, quiz])" by (simp add: essay_def quiz_def)
  have m: "essay \<in> set [essay, quiz]" by simp
  have v: "max 30 (case estimateMinutes essay of None \<Rightarrow> 60 | Some m \<Rightarrow> m) = (70::rat)"
    by (simp add: essay_def)
  show ?thesis
    by (intro conjI) (rule d m v essay_fresh C1_chunk_minutes_sum[OF d m essay_fresh])+
qed

subsection \<open>Claim C2\<close>

text \<open>
  Claim C2. Every chunk of the plan has a day within the window from today to today + 6.
  For every assignment list and override map the day string lies between the ISO dates
  of the window's first and last day; and when the chunk's override day, if there is one,
  is the ISO date of some day, the chunk's day is one of the seven dates of the window.
  The clock is taken to show a year from 0 to 9999 throughout the window.
\<close>

theorem C2_chunk_day_in_window:
  assumes "clockOK now" and "c \<in> set (buildDayPlan now items overrides)"
  shows "toISODate (startOfDay now) \<le> dayISO c
       \<and> dayISO c \<le> toISODate (plusDays (startOfDay now) 6)
       \<and> ((case dayISO_ov (overrideAt overrides (key c)) of
              None \<Rightarrow> True | Some s \<Rightarrow> \<exists>z. fourDigitYear z \<and> s = isoDate z)
            \<longrightarrow> dayISO c \<in> set (windowDates now))"
proof -
  define T where "T = dayNumber now"
  have f: "fourDigitYear T" "fourDigitYear (T + 6)"
    using assms(1) by (simp_all add: clockOK_def T_def)
  from assms(2) obtain d where d: "0 \<le> d" "d \<le> 6"
    and day: "dayISO c = clampToView
        (case dayISO_ov (overrideAt overrides (key c)) of
           None \<Rightarrow> isoDate (T + d) | Some s \<Rightarrow> s)
        (toISODate (startOfDay now)) (toISODate (plusDays (startOfDay now) 6))"
    unfolding T_def by (rule chunk_day)
  have bounds: "toISODate (startOfDay now) \<le> dayISO c
       \<and> dayISO c \<le> toISODate (plusDays (startOfDay now) 6)"
    unfolding day using window_bounds_ordered[OF assms(1)] by (rule clampToView_bounds)
  have inside: "dayISO c \<in> set (windowDates now)"
    if ok: "case dayISO_ov (overrideAt overrides (key c)) of
              None \<Rightarrow> True | Some s \<Rightarrow> \<exists>z. fourDigitYear z \<and> s = isoDate z"
  proof -
    have "\<exists>z. fourDigitYear z
        \<and> (case dayISO_ov (overrideAt overrides (key c)) of
             None \<Rightarrow> isoDate (T + d) | Some s \<Rightarrow> s) = isoDate z"
    proof (cases "dayISO_ov (overrideAt overrides (key c))")
      case None
      have "fourDigitYear (T + d)"
        using d by (intro fourDigitYear_between[OF f]) simp_all
      with None show ?thesis by auto
    next
      case (Some s)
      with ok show ?thesis by auto
    qed
    then obtain z where z: "fourDigitYear z"
      and "(case dayISO_ov (overrideAt overrides (key c)) of
             None \<Rightarrow> isoDate (T + d) | Some s \<Rightarrow> s) = isoDate z"
      by blast
    then have "dayISO c = isoDate (max T (min (T + 6) z))"
      using clampToView_isoDate[OF f z]
      by (simp add: day toISODate_plusDays toISODate_startOfDay T_def)
    then have "dayISO c = isoDate (dayNumber now + (max T (min (T + 6) z) - T))"
      by (simp add: T_def)
    moreover have "0 \<le> max T (min (T + 6) z) - T" "max T (min (T + 6) z) - T \<le> 6"
      by simp_all
    ultimately show ?thesis
      unfolding windowDates_iff by blast
  qed
  from bounds inside show ?thesis by blast
qed

text \<open>
  The theorem at sample inputs that satisfy its hypotheses.
\<close>

theorem C2_chunk_day_in_window_witness:
  "clockOK exampleNow
   \<and> movedChunk \<in> set (buildDayPlan exampleNow [essay] farDay)
   \<and> dayISO_ov (overrideAt farDay (key movedChunk)) = Some (isoDate 20819)
   \<and> fourDigitYear 20819
   \<and> toISODate (startOfDay exampleNow) \<le> dayISO movedChunk
   \<and> dayISO movedChunk \<le> toISODate (plusDays (startOfDay exampleNow) 6)
   \<and> dayISO movedChunk \<in> set (windowDates exampleNow)"
proof -
  have ov: "dayISO_ov (overrideAt farDay (key movedChunk)) = Some (isoDate 20819)"
    by (simp add: overrideAt_def farDay_def movedChunk_def farDay_date)
  have "case dayISO_ov (overrideAt farDay (key movedChunk)) of
          None \<Rightarrow> True | Some s \<Rightarrow> \<exists>z. fourDigitYear z \<and> s = isoDate z"
    unfolding ov using farDay_year by auto
  with C2_chunk_day_in_window[OF example_clockOK movedChunk_in_plan] ov farDay_year
    example_clockOK movedChunk_in_plan
  show ?thesis by blast
qed

subsection \<open>Claim C3\<close>

text \<open>
  Claim C3. Setting \<open>done = true\<close> in the override of key \<open>k\<close> and recomputing gives
  the old plan with the chunks of key \<open>k\<close> marked done and every other chunk unchanged.
  The keys of the plan are the same for any two override maps. And in the plan of any
  other assignment list that still holds the owner of \<open>k\<close>, the chunk of key \<open>k\<close> is
  present and done.
\<close>

theorem C3_done_override_stable:
  shows "buildDayPlan now items (withDone overrides k True)
           = map (markDone k) (buildDayPlan now items overrides)
       \<and> mset (map key (buildDayPlan now items overrides'))
           = mset (map key (buildDayPlan now items overrides))
       \<and> (a \<in> set items' \<and> \<not> stale now a \<and> i < length (splitChunks (totalMinutesOf a))
             \<and> k = chunkKey (id_a a) i
           \<longrightarrow> (\<exists>c\<in>set (buildDayPlan now items' (withDone overrides k True)). key c = k)
             \<and> (\<forall>c\<in>set (buildDayPlan now items' (withDone overrides k True)).
                   key c = k \<longrightarrow> done_c c))"
proof (intro conjI impI)
  show "buildDayPlan now items (withDone overrides k True)
           = map (markDone k) (buildDayPlan now items overrides)"
    by (rule buildDayPlan_withDone)
  show "mset (map key (buildDayPlan now items overrides'))
           = mset (map key (buildDayPlan now items overrides))"
    by (rule keys_buildDayPlan)
next
  assume h: "a \<in> set items' \<and> \<not> stale now a \<and> i < length (splitChunks (totalMinutesOf a))
             \<and> k = chunkKey (id_a a) i"
  let ?ov = "withDone overrides k True"
  have "planAssignment (startOfDay now) ?ov a ! i \<in> set (buildDayPlan now items' ?ov)"
    "key (planAssignment (startOfDay now) ?ov a ! i) = k"
    using chunk_present[of a items' now i ?ov] h by simp_all
  then show "\<exists>c\<in>set (buildDayPlan now items' ?ov). key c = k" by blast
next
  let ?ov = "withDone overrides k True"
  show "\<forall>c\<in>set (buildDayPlan now items' ?ov). key c = k \<longrightarrow> done_c c"
  proof (intro ballI impI)
    fix c assume "c \<in> set (buildDayPlan now items' ?ov)" and kc: "key c = k"
    then have "c \<in> markDone k ` set (buildDayPlan now items' overrides)"
      by (simp only: buildDayPlan_withDone set_map)
    then obtain c0 where c: "c = markDone k c0" by blast
    with kc have "key c0 = k" by (simp add: markDone_key)
    then show "done_c c" by (simp add: c markDone_def)
  qed
qed

text \<open>
  The theorem at sample inputs that satisfy its hypotheses.
\<close>

theorem C3_done_override_stable_witness:
  "essay \<in> set [essay, quiz] \<and> \<not> stale exampleNow essay
   \<and> 1 < length (splitChunks (totalMinutesOf essay))
   \<and> ''a1|1'' = chunkKey (id_a essay) 1
   \<and> buildDayPlan exampleNow [essay] (withDone farDay ''a1|1'' True)
       = map (markDone ''a1|1'') (buildDayPlan exampleNow [essay] farDay)
   \<and> mset (map key (buildDayPlan exampleNow [essay] Map.empty))
       = mset (map key (buildDayPlan exampleNow [essay] farDay))
   \<and> (\<exists>c\<in>set (buildDayPlan exampleNow [essay, quiz] (withDone farDay ''a1|1'' True)).
         key c = ''a1|1'' \<and> done_c c)"
proof -
  have m: "essay \<in> set [essay, quiz]" by simp
  have i: "1 < length (splitChunks (totalMinutesOf essay))" by (simp add: essay_total split_70)
  have k: "''a1|1'' = chunkKey (id_a essay) 1"
    by (simp add: chunkKey_def essay_def showNat.simps digitChar_def)
  from C3_done_override_stable[of exampleNow "[essay]" farDay "''a1|1''" Map.empty essay
      "[essay, quiz]" 1] m essay_fresh i k
  show ?thesis by blast
qed

subsection \<open>Claim C5\<close>

text \<open>
  Claim C5, as amended. For an assignment that is kept, with \<open>n\<close> chunks and a local window
  of \<open>L\<close> days, chunk \<open>i\<close> without a day override is in the plan, carries the key of
  index \<open>i\<close>, and falls on day \<open>round (i / (n - 1) * (L - 1))\<close> of the window when
  \<open>n > 1\<close> and on day 0 when \<open>n = 1\<close>. The first chunk falls on today. When \<open>n > 1\<close> and
  the due day is not before today, the last chunk falls on the earlier of the due day and
  the end of the window.
\<close>

theorem C5_default_day:
  assumes "clockOK now" and "a \<in> set items" and "\<not> stale now a"
    and "n = length (splitChunks (totalMinutesOf a))"
    and "L = windowLenOf (startOfDay now) a"
    and "i < n"
    and "dayISO_ov (overrideAt overrides (chunkKey (id_a a) i)) = None"
    and "c = planAssignment (startOfDay now) overrides a ! i"
  shows "c \<in> set (buildDayPlan now items overrides) \<and> key c = chunkKey (id_a a) i
       \<and> dayISO c = toISODate (plusDays (startOfDay now)
           (if n = 1 then 0 else round ((of_nat i :: rat) / of_nat (n - 1) * of_int (L - 1))))
       \<and> (i = 0 \<longrightarrow> dayISO c = toISODate (startOfDay now))
       \<and> (1 < n \<and> i = n - 1 \<and> startOfDay now \<le> startOfDay (dueISO a)
            \<longrightarrow> dayISO c = toISODate (min (startOfDay (dueISO a)) (plusDays (startOfDay now) 6)))"
proof -
  have i: "i < length (splitChunks (totalMinutesOf a))" using assms(4,6) by simp
  have mem: "c \<in> set (buildDayPlan now items overrides)" and k: "key c = chunkKey (id_a a) i"
    unfolding assms(8) using chunk_present[OF assms(2,3) i] by simp_all
  have c: "c = planChunk (startOfDay now) overrides a (splitChunks (totalMinutesOf a)) L
            (map (\<lambda>d. toISODate (plusDays (startOfDay now) (int d))) [0..<nat L]) i"
    unfolding assms(8) planAssignment_fresh[OF assms(3)] assms(5) using i by simp
  have Lr: "1 \<le> L" "L \<le> 7"
    using windowLenOf_range[of "startOfDay now" a] by (simp_all add: assms(5))
  have dr: "0 \<le> dayIndexOf n L i" "dayIndexOf n L i \<le> 6"
    using dayIndexOf_range[OF assms(6) Lr(1)] Lr(2) by simp_all
  have "map (\<lambda>d. toISODate (plusDays (startOfDay now) (int d))) [0..<nat L] ! nat (dayIndexOf n L i)
       = isoDate (dayNumber now + dayIndexOf n L i)"
    using assms(6,5) by (rule default_day)
  then have "dayISO c = clampToView (isoDate (dayNumber now + dayIndexOf n L i))
        (toISODate (startOfDay now)) (toISODate (plusDays (startOfDay now) 6))"
    by (simp add: c planChunk_fields assms(7) assms(4))
  then have day: "dayISO c = toISODate (plusDays (startOfDay now) (dayIndexOf n L i))"
    using dayISO_default_in_window[OF assms(1) dr] by (simp add: toISODate_plusDays)
  have n1: "1 \<le> n" using assms(6) by simp
  have formula: "dayISO c = toISODate (plusDays (startOfDay now)
           (if n = 1 then 0 else round ((of_nat i :: rat) / of_nat (n - 1) * of_int (L - 1))))"
    unfolding day dayIndexOf_formula[OF n1] ..
  have first: "dayISO c = toISODate (startOfDay now)" if "i = 0"
    using that by (simp add: day dayIndexOf_first plusDays_def)
  have final: "dayISO c = toISODate (min (startOfDay (dueISO a)) (plusDays (startOfDay now) 6))"
    if "1 < n \<and> i = n - 1 \<and> startOfDay now \<le> startOfDay (dueISO a)"
  proof -
    have "dayIndexOf n L i = L - 1" using that dayIndexOf_last[of n L] by simp
    then show ?thesis
      using last_day_of_window[of now a] that by (simp add: day assms(5))
  qed
  from mem k formula first final show ?thesis by blast
qed

text \<open>
  The theorem at sample inputs that satisfy its hypotheses.
\<close>

theorem C5_default_day_witness:
  "clockOK exampleNow \<and> essay \<in> set [essay] \<and> \<not> stale exampleNow essay
   \<and> 3 = length (splitChunks (totalMinutesOf essay))
   \<and> 4 = windowLenOf (startOfDay exampleNow) essay
   \<and> 0 < (3::nat) \<and> 2 < (3::nat) \<and> 2 = (3::nat) - 1
   \<and> startOfDay exampleNow \<le> startOfDay (dueISO essay)
   \<and> dayISO_ov (overrideAt Map.empty (chunkKey (id_a essay) 0)) = None
   \<and> dayISO_ov (overrideAt Map.empty (chunkKey (id_a essay) 2)) = None
   \<and> planAssignment (startOfDay exampleNow) Map.empty essay ! 0
        \<in> set (buildDayPlan exampleNow [essay] Map.empty)
   \<and> dayISO (planAssignment (startOfDay exampleNow) Map.empty essay ! 0)
        = toISODate (startOfDay exampleNow)
   \<and> planAssignment (startOfDay exampleNow) Map.empty essay ! 2
        \<in> set (buildDayPlan exampleNow [essay] Map.empty)
   \<and> dayISO (planAssignment (startOfDay exampleNow) Map.empty essay ! 2)
        = toISODate (plusDays (startOfDay exampleNow)
            (if (3::nat) = 1 then 0 else round ((of_nat 2 :: rat) / of_nat (3 - 1) * of_int (4 - 1))))
   \<and> dayISO (planAssignment (startOfDay exampleNow) Map.empty essay ! 2)
        = toISODate (min (startOfDay (dueISO essay)) (plusDays (startOfDay exampleNow) 6))"
proof -
  have m: "essay \<in> set [essay]" by simp
  have n: "3 = length (splitChunks (totalMinutesOf essay))" by (simp add: essay_total split_70)
  have L: "4 = windowLenOf (startOfDay exampleNow) essay" by (simp add: essay_window)
  have o: "dayISO_ov (overrideAt Map.empty (chunkKey (id_a essay) i)) = None" for i
    by (simp add: overrideAt_def emptyOverride_def)
  have i0: "0 < (3::nat)" and i2: "2 < (3::nat)" and l2: "2 = (3::nat) - 1" by simp_all
  note first = C5_default_day[OF example_clockOK m essay_fresh n L i0 o refl]
  note final = C5_default_day[OF example_clockOK m essay_fresh n L i2 o refl]
  have late: "1 < (3::nat) \<and> 2 = (3::nat) - 1
      \<and> startOfDay exampleNow \<le> startOfDay (dueISO essay)"
    using essay_due_after_start by simp
  note f1 = first[THEN conjunct1]
  note f2 = first[THEN conjunct2, THEN conjunct2, THEN conjunct2, THEN conjunct1, rule_format, OF refl]
  note g1 = final[THEN conjunct1]
  note g2 = final[THEN conjunct2, THEN conjunct2, THEN conjunct1]
  note g3 = final[THEN conjunct2, THEN conjunct2, THEN conjunct2, THEN conjunct2, rule_format, OF late]
  show ?thesis
    by (intro conjI)
       (rule f1 f2 g1 g2 g3 example_clockOK m essay_fresh n L i0 i2 l2 essay_due_after_start o)+
qed

text \<open>
  The claim as written also puts the last chunk of every assignment on the earlier of the
  due day and the window end. An assignment of one chunk, due in three days, has its only
  chunk today.
\<close>

theorem C5_counterexample:
  "dayISO (last (buildDayPlan exampleNow [memo] Map.empty))
     \<noteq> toISODate (min (startOfDay (dueISO memo)) (plusDays (startOfDay exampleNow) 6))"
  by (simp add: memo_plan memo_due_day)

subsection \<open>Claim C6\<close>

text \<open>
  Claim C6. A chunk whose override names a day outside the window (the ISO date of a day
  \<open>z\<close> before today or after today + 6) is planned on the nearest end of the window,
  and not on the day the override names. \<open>buildDayPlan\<close> is total: no input makes it
  fail.
\<close>

theorem C6_override_day_clamped:
  assumes "clockOK now" and "c \<in> set (buildDayPlan now items overrides)"
    and "dayISO_ov (overrideAt overrides (key c)) = Some (isoDate z)"
    and "fourDigitYear z"
    and "z < dayNumber now \<or> dayNumber now + 6 < z"
  shows "dayISO c = (if z < dayNumber now then toISODate (startOfDay now)
                      else toISODate (plusDays (startOfDay now) 6))
       \<and> dayISO c \<noteq> isoDate z"
proof -
  define T where "T = dayNumber now"
  have f: "fourDigitYear T" "fourDigitYear (T + 6)"
    using assms(1) by (simp_all add: clockOK_def T_def)
  from assms(2) obtain d where
    "dayISO c = clampToView
        (case dayISO_ov (overrideAt overrides (key c)) of
           None \<Rightarrow> isoDate (T + d) | Some s \<Rightarrow> s)
        (toISODate (startOfDay now)) (toISODate (plusDays (startOfDay now) 6))"
    unfolding T_def by (rule chunk_day)
  then have day: "dayISO c = isoDate (max T (min (T + 6) z))"
    using clampToView_isoDate[OF f assms(4)]
    by (simp add: assms(3) toISODate_plusDays toISODate_startOfDay T_def)
  have out: "z < T \<or> T + 6 < z" using assms(5) by (simp add: T_def)
  have m: "max T (min (T + 6) z) = (if z < T then T else T + 6)"
    using out by (auto simp: max_def min_def)
  have "fourDigitYear (max T (min (T + 6) z))" "max T (min (T + 6) z) \<noteq> z"
    using f out by (auto simp: m)
  then have "isoDate (max T (min (T + 6) z)) \<noteq> isoDate z"
    using isoDate_inj[OF _ assms(4)] by blast
  then show ?thesis
    using day m by (simp add: toISODate_plusDays toISODate_startOfDay T_def[symmetric])
qed

text \<open>
  The theorem at sample inputs that satisfy its hypotheses.
\<close>

theorem C6_override_day_clamped_witness:
  "clockOK exampleNow
   \<and> movedChunk \<in> set (buildDayPlan exampleNow [essay] farDay)
   \<and> dayISO_ov (overrideAt farDay (key movedChunk)) = Some (isoDate 20819)
   \<and> fourDigitYear 20819
   \<and> dayNumber exampleNow + 6 < 20819
   \<and> dayISO movedChunk = toISODate (plusDays (startOfDay exampleNow) 6)
   \<and> dayISO movedChunk \<noteq> isoDate 20819"
proof -
  have ov: "dayISO_ov (overrideAt farDay (key movedChunk)) = Some (isoDate 20819)"
    by (simp add: overrideAt_def farDay_def movedChunk_def farDay_date)
  have late: "dayNumber exampleNow + 6 < 20819" by (simp add: example_day)
  then have out: "20819 < dayNumber exampleNow \<or> dayNumber exampleNow + 6 < 20819" by simp
  have "\<not> 20819 < dayNumber exampleNow" by (simp add: example_day)
  then have "(if 20819 < dayNumber exampleNow then toISODate (startOfDay exampleNow)
       else toISODate (plusDays (startOfDay exampleNow) 6))
     = toISODate (plusDays (startOfDay exampleNow) 6)"
    by (rule if_not_P)
  with C6_override_day_clamped[OF example_clockOK movedChunk_in_plan ov farDay_year out]
  have "dayISO movedChunk = toISODate (plusDays (startOfDay exampleNow) 6)
      \<and> dayISO movedChunk \<noteq> isoDate 20819"
    by metis
  with example_clockOK movedChunk_in_plan ov farDay_year late
  show ?thesis by blast
qed

subsection \<open>Claim C7\<close>

text \<open>
  Claim C7. An assignment due more than 30 days before the start of today has no chunk in
  the plan, whatever the override map.
\<close>

theorem C7_stale_assignment_dropped:
  assumes "stale now a" and "a \<in> set items" and "distinct (map id_a items)"
  shows "chunksOf (id_a a) (buildDayPlan now items overrides) = []"
proof -
  have "mset (chunksOf (id_a a) (buildDayPlan now items overrides))
          = mset (planAssignment (startOfDay now) overrides a)"
    using assms(3,2) by (rule mset_chunksOf_buildDayPlan)
  then show ?thesis by (simp add: planAssignment_stale[OF assms(1)])
qed

text \<open>
  The theorem at sample inputs that satisfy its hypotheses.
\<close>

theorem C7_stale_assignment_dropped_witness:
  "stale exampleNow oldLab \<and> oldLab \<in> set [essay, oldLab] \<and> distinct (map id_a [essay, oldLab])
   \<and> chunksOf (id_a oldLab) (buildDayPlan exampleNow [essay, oldLab] Map.empty) = []"
proof -
  have d: "distinct (map id_a [essay, oldLab])" by (simp add: essay_def oldLab_def)
  have m: "oldLab \<in> set [essay, oldLab]" by simp
  from C7_stale_assignment_dropped[OF oldLab_stale m d] oldLab_stale m d
  show ?thesis by blast
qed

subsection \<open>Claim C8\<close>

text \<open>
  Claim C8, as amended. An estimate of 70 minutes is split into chunks of 30, 30 and 10
  minutes: a remainder of exactly 10 is not below \<open>MIN_LAST_CHUNK\<close> and is not merged.
  The list is in chunk-index order; in the plan the chunks of the assignment carry these
  minutes.
\<close>

theorem C8_seventy_minutes_split:
  assumes "estimateMinutes a = Some 70" and "\<not> stale now a"
    and "a \<in> set items" and "distinct (map id_a items)"
  shows "map minutes (planAssignment (startOfDay now) overrides a) = [30, 30, 10]
       \<and> mset (map minutes (chunksOf (id_a a) (buildDayPlan now items overrides)))
           = {#30, 30, 10#}"
proof -
  have t: "totalMinutesOf a = 70" using assms(1) by (simp add: totalMinutesOf_def)
  have l: "map minutes (planAssignment (startOfDay now) overrides a) = [30, 30, 10]"
    using assms(2) by (simp add: minutes_planAssignment t split_70)
  have "mset (chunksOf (id_a a) (buildDayPlan now items overrides))
          = mset (planAssignment (startOfDay now) overrides a)"
    using assms(4,3) by (rule mset_chunksOf_buildDayPlan)
  then have "mset (map minutes (chunksOf (id_a a) (buildDayPlan now items overrides)))
          = mset (map minutes (planAssignment (startOfDay now) overrides a))"
    by (metis mset_map)
  with l show ?thesis by simp
qed

text \<open>
  The theorem at sample inputs that satisfy its hypotheses.
\<close>

theorem C8_seventy_minutes_split_witness:
  "estimateMinutes essay = Some 70 \<and> \<not> stale exampleNow essay
   \<and> essay \<in> set [essay, oldLab] \<and> distinct (map id_a [essay, oldLab])
   \<and> map minutes (planAssignment (startOfDay exampleNow) farDay essay) = [30, 30, 10]
   \<and> mset (map minutes (chunksOf (id_a essay) (buildDayPlan exampleNow [essay, oldLab] farDay)))
       = {#30, 30, 10#}"
proof -
  have e: "estimateMinutes essay = Some 70" by (simp add: essay_def)
  have d: "distinct (map id_a [essay, oldLab])" by (simp add: essay_def oldLab_def)
  have m: "essay \<in> set [essay, oldLab]" by simp
  from C8_seventy_minutes_split[OF e essay_fresh m d] e essay_fresh m d
  show ?thesis by blast
qed

text \<open>
  The claim as written gives the sizes 30 and 40.
\<close>

theorem C8_counterexample:
  "map minutes (buildDayPlan exampleNow [essay] Map.empty) \<noteq> [30, 40]"
  by (simp add: essay_plan)

subsection \<open>Claim C9\<close>

text \<open>
  Claim C9, as amended. Every chunk of the plan has fewer than 40 minutes: a full chunk of
  30 plus a merged remainder below 10. The estimate may be any number, whole or not.
\<close>

theorem C9_chunk_minutes_below_40:
  assumes "c \<in> set (buildDayPlan now items overrides)"
  shows "minutes c < 40"
  using chunk_minutes_range[OF assms] by simp

text \<open>
  The theorem at sample inputs that satisfy its hypotheses: an estimate of 39.5 minutes
  gives one chunk of 39.5 minutes.
\<close>

theorem C9_chunk_minutes_below_40_witness:
  "planAssignment (startOfDay exampleNow) Map.empty draft ! 0
      \<in> set (buildDayPlan exampleNow [draft] Map.empty)
   \<and> minutes (planAssignment (startOfDay exampleNow) Map.empty draft ! 0) = 79 / 2
   \<and> minutes (planAssignment (startOfDay exampleNow) Map.empty draft ! 0) < 40"
proof -
  have i: "0 < length (splitChunks (totalMinutesOf draft))"
    by (simp add: draft_total split_half)
  have m: "planAssignment (startOfDay exampleNow) Map.empty draft ! 0
      \<in> set (buildDayPlan exampleNow [draft] Map.empty)"
    using chunk_present(1)[of draft "[draft]" exampleNow 0 Map.empty] draft_fresh i by simp
  have "map minutes (planAssignment (startOfDay exampleNow) Map.empty draft) ! 0 = 79 / 2"
    by (simp add: minutes_planAssignment[OF draft_fresh] draft_total split_half)
  moreover have "0 < length (planAssignment (startOfDay exampleNow) Map.empty draft)"
    using i by (simp add: planAssignment_fresh[OF draft_fresh])
  ultimately have v: "minutes (planAssignment (startOfDay exampleNow) Map.empty draft ! 0) = 79 / 2"
    by simp
  show ?thesis
    by (intro conjI) (rule m v C9_chunk_minutes_below_40[OF m])+
qed

text \<open>
  The claim as written bounds every chunk by 30 minutes. An estimate of 61 minutes gives a
  second chunk of 31 minutes.
\<close>

theorem C9_counterexample:
  "\<not> minutes (buildDayPlan exampleNow [quiz] Map.empty ! 1) \<le> 30"
  by (simp add: quiz_plan)

subsection \<open>Claim C10\<close>

text \<open>
  Claim C10. Every chunk of the plan carries the id of an assignment of the list (one that
  the stale-item filter keeps), and an override entry under a key of no assignment of the
  list does not change the plan.
\<close>

theorem C10_chunks_come_from_items:
  shows "(c \<in> set (buildDayPlan now items overrides)
           \<longrightarrow> (\<exists>a\<in>set items. assignmentId c = id_a a \<and> \<not> stale now a))
       \<and> ((\<forall>a i. a \<in> set items \<longrightarrow> k \<noteq> chunkKey (id_a a) i)
           \<longrightarrow> buildDayPlan now items (overrides(k \<mapsto> v)) = buildDayPlan now items overrides)"
proof (intro conjI impI)
  assume "c \<in> set (buildDayPlan now items overrides)"
  then obtain a where "a \<in> set items" "c \<in> set (planAssignment (startOfDay now) overrides a)"
    by (auto simp: set_buildDayPlan)
  then show "\<exists>a\<in>set items. assignmentId c = id_a a \<and> \<not> stale now a"
    using planAssignment_id by blast
next
  assume orphan: "\<forall>a i. a \<in> set items \<longrightarrow> k \<noteq> chunkKey (id_a a) i"
  show "buildDayPlan now items (overrides(k \<mapsto> v)) = buildDayPlan now items overrides"
    using orphan by (intro buildDayPlan_cong) auto
qed

text \<open>
  The theorem at sample inputs that satisfy its hypotheses.
\<close>

theorem C10_chunks_come_from_items_witness:
  "movedChunk \<in> set (buildDayPlan exampleNow [essay] farDay)
   \<and> essay \<in> set [essay] \<and> assignmentId movedChunk = id_a essay \<and> \<not> stale exampleNow essay
   \<and> \<not> (\<exists>a i. a \<in> set [essay] \<and> ''gone|0'' = chunkKey (id_a a) i)
   \<and> buildDayPlan exampleNow [essay] (farDay(''gone|0'' \<mapsto> orphanEntry))
       = buildDayPlan exampleNow [essay] farDay"
proof -
  have o: "\<forall>a i. a \<in> set [essay] \<longrightarrow> ''gone|0'' \<noteq> chunkKey (id_a a) i"
    by (simp add: chunkKey_def essay_def)
  have i: "assignmentId movedChunk = id_a essay" by (simp add: movedChunk_def essay_def)
  from C10_chunks_come_from_items[of movedChunk exampleNow "[essay]" farDay "''gone|0''" orphanEntry]
    o i movedChunk_in_plan essay_fresh
  show ?thesis by simp
qed

end
